theory Spec2Isabelle
  imports Complex_Main "HOL-Library.AList" "HOL-Library.Char_ord" "HOL-Library.List_Lexorder"
begin

section \<open>The score engine of \<open>score_calculator.py\<close>\<close>

text \<open>
  The scoring core is the function \<open>compute_score\<close>. It reads a parsed threat-model
  document, derives one \<open>MetricResult\<close> per metric record, aggregates severities per
  dimension and over all dimensions, and counts tag-prefix compliance.

  Conventions of the embedding:
  \<^item> Python's unbounded \<open>int\<close> is \<^typ>\<open>int\<close>; \<open>//\<close> with a positive divisor is \<open>div\<close>.
  \<^item> A Python \<open>dict\<close> is an association list in insertion order with distinct keys;
    \<open>d[k]\<close> is \<^const>\<open>map_of\<close> (a missing key is \<open>KeyError\<close>), \<open>d[k] = v\<close> is
    \<^const>\<open>AList.update\<close> (an existing key keeps its position, a new key goes last).
  \<^item> The parsed JSON document is typed: each key the engine reads is an optional field
    (\<open>None\<close> when the key is absent) whose value, when present, has the type the engine
    expects.
  \<^item> A Python \<open>float\<close> is represented by the exact rational value of the expression that
    computes it; binary64 rounding is not modelled.
  \<^item> Strings are byte strings; the separator \<open>,\<close> is a single byte, and byte-wise
    lexicographic order agrees with code-point order on UTF-8.
\<close>

subsection \<open>Data model\<close>

datatype error = KeyError string

type_synonym ('k, 'v) dict = "('k \<times> 'v) list"

type_synonym pyfloat = rat

definition DIMENSIONS :: "string list" where
  "DIMENSIONS =
     [''network'', ''system services'', ''system integrity'', ''credentials'', ''applications'']"

text \<open>A metric record of the document: the keys \<open>name\<close>, \<open>dimension\<close>, \<open>severity\<close>, \<open>tags\<close>.\<close>

record raw_metric =
  raw_name :: "string option"
  raw_dimension :: "string option"
  raw_severity :: "int option"
  raw_tags :: "string list option"

text \<open>The document: the keys \<open>name\<close> and \<open>metrics\<close>.\<close>

record threat_model =
  tm_name :: "string option"
  tm_metrics :: "raw_metric list option"

record MetricResult =
  name :: string
  dimension :: string
  severity :: int
  tags :: "string list"
  active :: bool

record DimensionScore =
  dim_name :: string
  current :: int
  maximum :: int
  score :: int

record ComplianceResult =
  tag :: string
  compliant :: int
  total :: int
  percentage :: pyfloat

record ScoreResult =
  platform :: string
  dimensions :: "(string, DimensionScore) dict"
  overall :: int
  stars :: pyfloat
  compliance :: "(string, ComplianceResult) dict"
  metrics :: "MetricResult list"
  total_metrics :: int
  active_threats :: int
  inactive_threats :: int

definition has_metrics :: "DimensionScore \<Rightarrow> bool" where
  "has_metrics d = (maximum d > 0)"

subsection \<open>Building the metric results\<close>

text \<open>
  The body of the first loop: \<open>m["name"]\<close>, then the membership test, then
  \<open>m["dimension"]\<close>, \<open>m["severity"]\<close> and \<open>m.get("tags", [])\<close>, in this order.
\<close>

definition metric_result :: "raw_metric \<Rightarrow> string set \<Rightarrow> bool \<Rightarrow> error + MetricResult" where
  "metric_result m inactive_names all_inactive =
     (case raw_name m of
        None \<Rightarrow> Inl (KeyError ''name'')
      | Some n \<Rightarrow>
          let is_inactive = (all_inactive \<or> n \<in> inactive_names) in
          (case raw_dimension m of
             None \<Rightarrow> Inl (KeyError ''dimension'')
           | Some d \<Rightarrow>
               (case raw_severity m of
                  None \<Rightarrow> Inl (KeyError ''severity'')
                | Some s \<Rightarrow>
                    Inr \<lparr>name = n, dimension = d, severity = s,
                         tags = (case raw_tags m of None \<Rightarrow> [] | Some ts \<Rightarrow> ts),
                         active = (\<not> is_inactive)\<rparr>)))"

fun build_metrics ::
  "raw_metric list \<Rightarrow> string set \<Rightarrow> bool \<Rightarrow> MetricResult list \<Rightarrow> error + MetricResult list"
where
  "build_metrics [] inactive_names all_inactive acc = Inr acc"
| "build_metrics (m # ms) inactive_names all_inactive acc =
     (case metric_result m inactive_names all_inactive of
        Inl e \<Rightarrow> Inl e
      | Inr r \<Rightarrow> build_metrics ms inactive_names all_inactive (acc @ [r]))"

subsection \<open>Dimension scores\<close>

definition init_dim_accum :: "(string, int \<times> int) dict" where
  "init_dim_accum = map (\<lambda>d. (d, (0, 0))) DIMENSIONS"

fun accumulate_dimensions ::
  "MetricResult list \<Rightarrow> (string, int \<times> int) dict \<Rightarrow> error + (string, int \<times> int) dict"
where
  "accumulate_dimensions [] dim_accum = Inr dim_accum"
| "accumulate_dimensions (m # ms) dim_accum =
     (case map_of dim_accum (dimension m) of
        None \<Rightarrow> Inl (KeyError (dimension m))
      | Some (cur, mx) \<Rightarrow>
          let mx' = mx + severity m;
              cur' = (if \<not> active m then cur + severity m else cur)
          in accumulate_dimensions ms (AList.update (dimension m) (cur', mx') dim_accum))"

text \<open>
  The loop over \<open>DIMENSIONS\<close>: the state is the \<open>dimensions\<close> dict with the two running
  totals \<open>overall_current\<close> and \<open>overall_max\<close>.
\<close>

fun score_dimensions ::
  "string list \<Rightarrow> (string, int \<times> int) dict \<Rightarrow>
   (string, DimensionScore) dict \<times> int \<times> int \<Rightarrow>
   error + ((string, DimensionScore) dict \<times> int \<times> int)"
where
  "score_dimensions [] dim_accum st = Inr st"
| "score_dimensions (d # ds) dim_accum (dims, overall_current, overall_max) =
     (case map_of dim_accum d of
        None \<Rightarrow> Inl (KeyError d)
      | Some (cur, mx) \<Rightarrow>
          let sc = (if mx > 0 then (100 * cur) div mx else - 1)
          in score_dimensions ds dim_accum
               (AList.update d \<lparr>dim_name = d, current = cur, maximum = mx, score = sc\<rparr> dims,
                overall_current + cur, overall_max + mx))"

subsection \<open>Compliance\<close>

text \<open>\<open>tag[: tag.index(",")]\<close> when the tag holds a comma, the whole tag otherwise.\<close>

definition tag_prefix :: "string \<Rightarrow> string" where
  "tag_prefix t =
     (if CHR '','' \<in> set t then takeWhile (\<lambda>c. c \<noteq> CHR '','') t else t)"

fun add_tag_prefixes :: "string list \<Rightarrow> string set \<Rightarrow> string set" where
  "add_tag_prefixes [] tag_prefixes = tag_prefixes"
| "add_tag_prefixes (t # ts) tag_prefixes = add_tag_prefixes ts (insert (tag_prefix t) tag_prefixes)"

fun collect_tag_prefixes :: "MetricResult list \<Rightarrow> string set \<Rightarrow> string set" where
  "collect_tag_prefixes [] tag_prefixes = tag_prefixes"
| "collect_tag_prefixes (m # ms) tag_prefixes =
     collect_tag_prefixes ms (add_tag_prefixes (tags m) tag_prefixes)"

text \<open>\<open>s.startswith(p)\<close>.\<close>

fun startswith :: "string \<Rightarrow> string \<Rightarrow> bool" where
  "startswith s [] = True"
| "startswith [] (p # ps) = False"
| "startswith (c # s) (p # ps) = (c = p \<and> startswith s ps)"

text \<open>The two nested counting loops; the state is the pair \<open>(total, compliant)\<close>.\<close>

fun count_tags :: "string \<Rightarrow> bool \<Rightarrow> string list \<Rightarrow> int \<times> int \<Rightarrow> int \<times> int" where
  "count_tags p act [] st = st"
| "count_tags p act (metric_tag # ts) (tot, cpl) =
     (if startswith metric_tag p
      then count_tags p act ts (tot + 1, if \<not> act then cpl + 1 else cpl)
      else count_tags p act ts (tot, cpl))"

fun count_metrics :: "string \<Rightarrow> MetricResult list \<Rightarrow> int \<times> int \<Rightarrow> int \<times> int" where
  "count_metrics p [] st = st"
| "count_metrics p (m # ms) st = count_metrics p ms (count_tags p (active m) (tags m) st)"

fun build_compliance ::
  "string list \<Rightarrow> MetricResult list \<Rightarrow> (string, ComplianceResult) dict \<Rightarrow>
   (string, ComplianceResult) dict"
where
  "build_compliance [] ms comp_dict = comp_dict"
| "build_compliance (p # ps) ms comp_dict =
     (case count_metrics p ms (0, 0) of
        (tot, cpl) \<Rightarrow>
          if tot > 0
          then build_compliance ps ms
                 (AList.update p
                    \<lparr>tag = p, compliant = cpl, total = tot,
                     percentage = (100 * of_int cpl) / of_int tot\<rparr> comp_dict)
          else build_compliance ps ms comp_dict)"

subsection \<open>The engine\<close>

text \<open>
  \<open>inactive_threats\<close> defaults to the empty set, \<open>threat_model.get("metrics", [])\<close> to the
  empty list and \<open>threat_model.get("name", "unknown")\<close> to \<open>"unknown"\<close>.
\<close>

definition inactive_or_empty :: "string set option \<Rightarrow> string set" where
  "inactive_or_empty inactive_opt = (case inactive_opt of None \<Rightarrow> {} | Some s \<Rightarrow> s)"

definition get_metrics :: "threat_model \<Rightarrow> raw_metric list" where
  "get_metrics model = (case tm_metrics model of None \<Rightarrow> [] | Some rs \<Rightarrow> rs)"

definition get_name :: "threat_model \<Rightarrow> string" where
  "get_name model = (case tm_name model of None \<Rightarrow> ''unknown'' | Some n \<Rightarrow> n)"

definition compute_score ::
  "threat_model \<Rightarrow> string set option \<Rightarrow> bool \<Rightarrow> error + ScoreResult"
where
  "compute_score model inactive_opt all_inactive =
     (let inactive_names = inactive_or_empty inactive_opt;
          raw_metrics = get_metrics model;
          plat = get_name model
      in case build_metrics raw_metrics inactive_names all_inactive [] of
           Inl e \<Rightarrow> Inl e
         | Inr ms \<Rightarrow>
             (case accumulate_dimensions ms init_dim_accum of
                Inl e \<Rightarrow> Inl e
              | Inr dim_accum \<Rightarrow>
                  (case score_dimensions DIMENSIONS dim_accum ([], 0, 0) of
                     Inl e \<Rightarrow> Inl e
                   | Inr (dims, overall_current, overall_max) \<Rightarrow>
                       let ov = (if overall_max > 0
                                 then (100 * overall_current) div overall_max else 0);
                           st = (of_int ov * 5) / 100;
                           tag_prefixes = collect_tag_prefixes ms {};
                           comp_dict = build_compliance (sorted_list_of_set tag_prefixes) ms []
                       in Inr \<lparr>platform = plat,
                               dimensions = dims,
                               overall = ov,
                               stars = st,
                               compliance = comp_dict,
                               metrics = ms,
                               total_metrics = int (length ms),
                               active_threats = int (length (filter active ms)),
                               inactive_threats = int (length (filter (\<lambda>m. \<not> active m) ms))\<rparr>)))"

subsection \<open>The engine over an explicit store\<close>

text \<open>
  The same function once more, now with the Python objects it touches held in a store, so
  that what the call writes, and where, is part of the model. A heap is a list of objects and
  an address is an index into it; allocation appends. The document dict, its metric list,
  each metric dict, each tags list and the inactive set are objects of the heap the call
  receives; the containers and dataclass instances the call creates are allocated behind
  them. Strings, integers, booleans and floats are immutable and stay values.

  A run returns an outcome and the heap it leaves: \<open>Returned\<close>, \<open>Raised\<close> for a Python
  exception, or \<open>Stuck\<close> when a reference does not lead to an object of the expected kind,
  which a well-typed document excludes. A \<open>for\<close> loop runs over the list of references read
  when the loop starts. \<open>MetricResult\<close> keeps the reference \<open>m.get("tags", [])\<close> returns: the
  document's own tags list when the key is present, a new empty list otherwise.
\<close>

type_synonym addr = nat

datatype obj =
    DocObj "string option" "addr option"
  | RefList "addr list"
  | MetricDict "string option" "string option" "int option" "addr option"
  | StrList "string list"
  | StrSet "string set"
  | MetricResultObj string string int addr bool
  | AccumDict "(string, int \<times> int) dict"
  | DimensionScoreObj DimensionScore
  | DimensionDict "(string, addr) dict"
  | ComplianceResultObj ComplianceResult
  | ComplianceDict "(string, addr) dict"
  | ScoreResultObj string addr int pyfloat addr addr int int int

type_synonym heap = "obj list"

datatype 'a outcome = Returned 'a | Raised error | Stuck

type_synonym 'a run = "'a outcome \<times> heap"

definition new :: "obj \<Rightarrow> heap \<Rightarrow> addr run" where
  "new v h = (Returned (length h), h @ [v])"

definition read :: "(obj \<Rightarrow> 'a option) \<Rightarrow> addr \<Rightarrow> heap \<Rightarrow> 'a run" where
  "read sel a h =
     (if a < length h
      then (case sel (h ! a) of Some x \<Rightarrow> (Returned x, h) | None \<Rightarrow> (Stuck, h))
      else (Stuck, h))"

definition store :: "addr \<Rightarrow> obj \<Rightarrow> heap \<Rightarrow> unit run" where
  "store a v h = (if a < length h then (Returned (), h[a := v]) else (Stuck, h))"

definition bind :: "'a run \<Rightarrow> ('a \<Rightarrow> heap \<Rightarrow> 'b run) \<Rightarrow> 'b run" where
  "bind r f =
     (case r of
        (Returned x, h) \<Rightarrow> f x h
      | (Raised e, h) \<Rightarrow> (Raised e, h)
      | (Stuck, h) \<Rightarrow> (Stuck, h))"

definition the_doc :: "obj \<Rightarrow> (string option \<times> addr option) option" where
  "the_doc v = (case v of DocObj nm ms \<Rightarrow> Some (nm, ms) | _ \<Rightarrow> None)"

definition the_refs :: "obj \<Rightarrow> addr list option" where
  "the_refs v = (case v of RefList xs \<Rightarrow> Some xs | _ \<Rightarrow> None)"

definition the_metric_dict ::
  "obj \<Rightarrow> (string option \<times> string option \<times> int option \<times> addr option) option" where
  "the_metric_dict v = (case v of MetricDict n d s t \<Rightarrow> Some (n, d, s, t) | _ \<Rightarrow> None)"

definition the_strings :: "obj \<Rightarrow> string list option" where
  "the_strings v = (case v of StrList ts \<Rightarrow> Some ts | _ \<Rightarrow> None)"

definition the_string_set :: "obj \<Rightarrow> string set option" where
  "the_string_set v = (case v of StrSet names \<Rightarrow> Some names | _ \<Rightarrow> None)"

definition the_metric_result :: "obj \<Rightarrow> (string \<times> string \<times> int \<times> addr \<times> bool) option" where
  "the_metric_result v =
     (case v of MetricResultObj nm dm sv ta act \<Rightarrow> Some (nm, dm, sv, ta, act) | _ \<Rightarrow> None)"

definition the_accum :: "obj \<Rightarrow> (string, int \<times> int) dict option" where
  "the_accum v = (case v of AccumDict acc \<Rightarrow> Some acc | _ \<Rightarrow> None)"

definition the_dimension_dict :: "obj \<Rightarrow> (string, addr) dict option" where
  "the_dimension_dict v = (case v of DimensionDict dims \<Rightarrow> Some dims | _ \<Rightarrow> None)"

definition the_compliance_dict :: "obj \<Rightarrow> (string, addr) dict option" where
  "the_compliance_dict v = (case v of ComplianceDict cd \<Rightarrow> Some cd | _ \<Rightarrow> None)"

definition metric_result_st :: "addr \<Rightarrow> addr \<Rightarrow> bool \<Rightarrow> heap \<Rightarrow> addr run" where
  "metric_result_st ma ia all_inactive h0 =
     bind (read the_metric_dict ma h0) (\<lambda>(n, d, s, t) h.
       case n of
         None \<Rightarrow> (Raised (KeyError ''name''), h)
       | Some nm \<Rightarrow>
           bind (if all_inactive then (Returned True, h)
                 else bind (read the_string_set ia h)
                        (\<lambda>inactive_names h. (Returned (nm \<in> inactive_names), h)))
             (\<lambda>is_inactive h.
                case d of
                  None \<Rightarrow> (Raised (KeyError ''dimension''), h)
                | Some dm \<Rightarrow>
                    (case s of
                       None \<Rightarrow> (Raised (KeyError ''severity''), h)
                     | Some sv \<Rightarrow>
                         bind (case t of None \<Rightarrow> new (StrList []) h
                                       | Some ta \<Rightarrow> (Returned ta, h))
                           (\<lambda>ta h. new (MetricResultObj nm dm sv ta (\<not> is_inactive)) h))))"

fun build_metrics_st :: "addr list \<Rightarrow> addr \<Rightarrow> bool \<Rightarrow> addr \<Rightarrow> heap \<Rightarrow> unit run" where
  "build_metrics_st [] ia all_inactive la h0 = (Returned (), h0)"
| "build_metrics_st (ma # mas) ia all_inactive la h0 =
     bind (metric_result_st ma ia all_inactive h0) (\<lambda>ra h.
     bind (read the_refs la h) (\<lambda>xs h.
     bind (store la (RefList (xs @ [ra])) h) (\<lambda>_ h.
       build_metrics_st mas ia all_inactive la h)))"

fun accumulate_dimensions_st :: "addr list \<Rightarrow> addr \<Rightarrow> heap \<Rightarrow> unit run" where
  "accumulate_dimensions_st [] da h0 = (Returned (), h0)"
| "accumulate_dimensions_st (ra # ras) da h0 =
     bind (read the_metric_result ra h0) (\<lambda>(nm, dm, sv, ta, act) h.
     bind (read the_accum da h) (\<lambda>dim_accum h.
       case map_of dim_accum dm of
         None \<Rightarrow> (Raised (KeyError dm), h)
       | Some (cur, mx) \<Rightarrow>
           let mx' = mx + sv;
               cur' = (if \<not> act then cur + sv else cur)
           in bind (store da (AccumDict (AList.update dm (cur', mx') dim_accum)) h)
                (\<lambda>_ h. accumulate_dimensions_st ras da h)))"

fun score_dimensions_st ::
  "string list \<Rightarrow> addr \<Rightarrow> addr \<Rightarrow> int \<times> int \<Rightarrow> heap \<Rightarrow> (int \<times> int) run"
where
  "score_dimensions_st [] da dd st h0 = (Returned st, h0)"
| "score_dimensions_st (d # ds) da dd (overall_current, overall_max) h0 =
     bind (read the_accum da h0) (\<lambda>dim_accum h.
       case map_of dim_accum d of
         None \<Rightarrow> (Raised (KeyError d), h)
       | Some (cur, mx) \<Rightarrow>
           let sc = (if mx > 0 then (100 * cur) div mx else - 1)
           in bind (new (DimensionScoreObj
                          \<lparr>dim_name = d, current = cur, maximum = mx, score = sc\<rparr>) h)
                (\<lambda>sa h.
                   bind (read the_dimension_dict dd h) (\<lambda>dims h.
                   bind (store dd (DimensionDict (AList.update d sa dims)) h) (\<lambda>_ h.
                     score_dimensions_st ds da dd
                       (overall_current + cur, overall_max + mx) h))))"

fun add_tag_prefixes_st :: "string list \<Rightarrow> addr \<Rightarrow> heap \<Rightarrow> unit run" where
  "add_tag_prefixes_st [] pa h0 = (Returned (), h0)"
| "add_tag_prefixes_st (t # ts) pa h0 =
     bind (read the_string_set pa h0) (\<lambda>tag_prefixes h.
     bind (store pa (StrSet (insert (tag_prefix t) tag_prefixes)) h) (\<lambda>_ h.
       add_tag_prefixes_st ts pa h))"

fun collect_tag_prefixes_st :: "addr list \<Rightarrow> addr \<Rightarrow> heap \<Rightarrow> unit run" where
  "collect_tag_prefixes_st [] pa h0 = (Returned (), h0)"
| "collect_tag_prefixes_st (ra # ras) pa h0 =
     bind (read the_metric_result ra h0) (\<lambda>(nm, dm, sv, ta, act) h.
     bind (read the_strings ta h) (\<lambda>ts h.
     bind (add_tag_prefixes_st ts pa h) (\<lambda>_ h.
       collect_tag_prefixes_st ras pa h)))"

fun count_metrics_st :: "string \<Rightarrow> addr list \<Rightarrow> int \<times> int \<Rightarrow> heap \<Rightarrow> (int \<times> int) run" where
  "count_metrics_st p [] st h0 = (Returned st, h0)"
| "count_metrics_st p (ra # ras) st h0 =
     bind (read the_metric_result ra h0) (\<lambda>(nm, dm, sv, ta, act) h.
     bind (read the_strings ta h) (\<lambda>ts h.
       count_metrics_st p ras (count_tags p act ts st) h))"

fun build_compliance_st :: "string list \<Rightarrow> addr list \<Rightarrow> addr \<Rightarrow> heap \<Rightarrow> unit run" where
  "build_compliance_st [] ras ca h0 = (Returned (), h0)"
| "build_compliance_st (p # ps) ras ca h0 =
     bind (count_metrics_st p ras (0, 0) h0) (\<lambda>(tot, cpl) h.
       if tot > 0
       then bind (new (ComplianceResultObj
                         \<lparr>tag = p, compliant = cpl, total = tot,
                          percentage = (100 * of_int cpl) / of_int tot\<rparr>) h)
              (\<lambda>ea h.
                 bind (read the_compliance_dict ca h) (\<lambda>comp_dict h.
                 bind (store ca (ComplianceDict (AList.update p ea comp_dict)) h) (\<lambda>_ h.
                   build_compliance_st ps ras ca h)))
       else build_compliance_st ps ras ca h)"

fun count_active_st :: "addr list \<Rightarrow> int \<times> int \<Rightarrow> heap \<Rightarrow> (int \<times> int) run" where
  "count_active_st [] st h0 = (Returned st, h0)"
| "count_active_st (ra # ras) (active_count, inactive_count) h0 =
     bind (read the_metric_result ra h0) (\<lambda>(nm, dm, sv, ta, act) h.
       count_active_st ras
         (if act then active_count + 1 else active_count,
          if \<not> act then inactive_count + 1 else inactive_count) h)"

definition dimension_pass_st :: "addr list \<Rightarrow> heap \<Rightarrow> (addr \<times> int \<times> pyfloat) run" where
  "dimension_pass_st ras h0 =
     bind (new (AccumDict init_dim_accum) h0) (\<lambda>da h.
     bind (accumulate_dimensions_st ras da h) (\<lambda>_ h.
     bind (new (DimensionDict []) h) (\<lambda>dd h.
     bind (score_dimensions_st DIMENSIONS da dd (0, 0) h) (\<lambda>(overall_current, overall_max) h.
       let ov = (if overall_max > 0 then (100 * overall_current) div overall_max else 0);
           st = (of_int ov * 5) / 100
       in (Returned (dd, ov, st), h)))))"

definition compliance_pass_st :: "addr list \<Rightarrow> heap \<Rightarrow> addr run" where
  "compliance_pass_st ras h0 =
     bind (new (StrSet {}) h0) (\<lambda>pa h.
     bind (collect_tag_prefixes_st ras pa h) (\<lambda>_ h.
     bind (new (ComplianceDict []) h) (\<lambda>ca h.
     bind (read the_string_set pa h) (\<lambda>tag_prefixes h.
     bind (new (StrList (sorted_list_of_set tag_prefixes)) h) (\<lambda>sa h.
     bind (build_compliance_st (sorted_list_of_set tag_prefixes) ras ca h) (\<lambda>_ h.
       (Returned ca, h)))))))"

definition score_metrics_st :: "string \<Rightarrow> addr \<Rightarrow> heap \<Rightarrow> addr run" where
  "score_metrics_st plat la h0 =
     bind (read the_refs la h0) (\<lambda>ras h.
     bind (dimension_pass_st ras h) (\<lambda>(dd, ov, st) h.
     bind (compliance_pass_st ras h) (\<lambda>ca h.
     bind (count_active_st ras (0, 0) h) (\<lambda>(active_count, inactive_count) h.
       new (ScoreResultObj plat dd ov st ca la (int (length ras))
              active_count inactive_count) h))))"

definition compute_score_st :: "addr \<Rightarrow> addr option \<Rightarrow> bool \<Rightarrow> heap \<Rightarrow> addr run" where
  "compute_score_st ta inactive_opt all_inactive h0 =
     bind (case inactive_opt of None \<Rightarrow> new (StrSet {}) h0 | Some ia \<Rightarrow> (Returned ia, h0))
       (\<lambda>ia h.
     bind (read the_doc ta h) (\<lambda>(nm, ms) h.
     bind (case ms of None \<Rightarrow> new (RefList []) h | Some a \<Rightarrow> (Returned a, h)) (\<lambda>rla h.
     bind (read the_refs rla h) (\<lambda>raw_metrics h.
       let plat = (case nm of None \<Rightarrow> ''unknown'' | Some n \<Rightarrow> n) in
       bind (new (RefList []) h) (\<lambda>la h.
       bind (build_metrics_st raw_metrics ia all_inactive la h) (\<lambda>_ h.
         score_metrics_st plat la h))))))"

section \<open>Specification-level definitions\<close>

text \<open>
  The quantities the specification speaks of, written from its words: the per-dimension sums,
  the floor laws, the tag prefixes and the metric--tag pair counts. The result of the engine
  is compared with them below.
\<close>

definition spec_current :: "string \<Rightarrow> MetricResult list \<Rightarrow> int" where
  "spec_current d ms = sum_list (map severity (filter (\<lambda>m. dimension m = d \<and> \<not> active m) ms))"

definition spec_maximum :: "string \<Rightarrow> MetricResult list \<Rightarrow> int" where
  "spec_maximum d ms = sum_list (map severity (filter (\<lambda>m. dimension m = d) ms))"

definition spec_score :: "int \<Rightarrow> int \<Rightarrow> int" where
  "spec_score cur mx = (if mx > 0 then (100 * cur) div mx else - 1)"

definition dim_entry :: "MetricResult list \<Rightarrow> string \<Rightarrow> string \<times> DimensionScore" where
  "dim_entry ms d =
     (d, \<lparr>dim_name = d, current = spec_current d ms, maximum = spec_maximum d ms,
          score = spec_score (spec_current d ms) (spec_maximum d ms)\<rparr>)"

definition score_entry :: "(string, int \<times> int) dict \<Rightarrow> string \<Rightarrow> string \<times> DimensionScore" where
  "score_entry acc d =
     (case the (map_of acc d) of
        (c, x) \<Rightarrow> (d, \<lparr>dim_name = d, current = c, maximum = x, score = spec_score c x\<rparr>))"

definition metric_tag_pairs :: "MetricResult list \<Rightarrow> (MetricResult \<times> string) list" where
  "metric_tag_pairs ms = concat (map (\<lambda>m. map (Pair m) (tags m)) ms)"

definition spec_prefixes :: "MetricResult list \<Rightarrow> string set" where
  "spec_prefixes ms = tag_prefix ` snd ` set (metric_tag_pairs ms)"

definition spec_total :: "string \<Rightarrow> MetricResult list \<Rightarrow> int" where
  "spec_total p ms = int (length (filter (\<lambda>(m, t). startswith t p) (metric_tag_pairs ms)))"

definition spec_compliant :: "string \<Rightarrow> MetricResult list \<Rightarrow> int" where
  "spec_compliant p ms =
     int (length (filter (\<lambda>(m, t). startswith t p \<and> \<not> active m) (metric_tag_pairs ms)))"

definition compliance_entry :: "MetricResult list \<Rightarrow> string \<Rightarrow> string \<times> ComplianceResult" where
  "compliance_entry ms p =
     (p, \<lparr>tag = p, compliant = spec_compliant p ms, total = spec_total p ms,
          percentage = (100 * of_int (spec_compliant p ms)) / of_int (spec_total p ms)\<rparr>)"

definition overall_current_of :: "MetricResult list \<Rightarrow> int" where
  "overall_current_of ms = sum_list (map (\<lambda>d. spec_current d ms) DIMENSIONS)"

definition overall_max_of :: "MetricResult list \<Rightarrow> int" where
  "overall_max_of ms = sum_list (map (\<lambda>d. spec_maximum d ms) DIMENSIONS)"

definition spec_overall :: "int \<Rightarrow> int \<Rightarrow> int" where
  "spec_overall oc om = (if om > 0 then (100 * oc) div om else 0)"

definition closed_result :: "string \<Rightarrow> MetricResult list \<Rightarrow> ScoreResult" where
  "closed_result plat ms =
     \<lparr>platform = plat,
      dimensions = map (dim_entry ms) DIMENSIONS,
      overall = spec_overall (overall_current_of ms) (overall_max_of ms),
      stars = (of_int (spec_overall (overall_current_of ms) (overall_max_of ms)) * 5) / 100,
      compliance = map (compliance_entry ms)
                     (filter (\<lambda>p. spec_total p ms > 0) (sorted_list_of_set (spec_prefixes ms))),
      metrics = ms,
      total_metrics = int (length ms),
      active_threats = int (length (filter active ms)),
      inactive_threats = int (length (filter (\<lambda>m. \<not> active m) ms))\<rparr>"

definition metric_names :: "threat_model \<Rightarrow> string set" where
  "metric_names model = set (List.map_filter raw_name (get_metrics model))"

text \<open>
  Shapes of a metric record: a dimension outside the five labels, the three required keys,
  the first required key that is missing, and the tag list with its default.
\<close>

definition unknown_dimension :: "raw_metric \<Rightarrow> bool" where
  "unknown_dimension m =
     (case raw_dimension m of None \<Rightarrow> False | Some d \<Rightarrow> d \<notin> set DIMENSIONS)"

definition has_required_keys :: "raw_metric \<Rightarrow> bool" where
  "has_required_keys m =
     (raw_name m \<noteq> None \<and> raw_dimension m \<noteq> None \<and> raw_severity m \<noteq> None)"

definition missing_key :: "raw_metric \<Rightarrow> string" where
  "missing_key m =
     (if raw_name m = None then ''name''
      else if raw_dimension m = None then ''dimension'' else ''severity'')"

definition tags_or_empty :: "raw_metric \<Rightarrow> string list" where
  "tags_or_empty m = (case raw_tags m of None \<Rightarrow> [] | Some ts \<Rightarrow> ts)"

text \<open>
  \<open>built_from inactive_names all_inactive raw m\<close>: the metric result \<open>m\<close> carries the name,
  dimension, severity and tags of the document's record \<open>raw\<close>, and the active flag the engine
  derives from the name. \<open>doc_current\<close> and \<open>doc_maximum\<close> are the per-dimension sums read off
  the document's records themselves: the severities of the records of a dimension that are
  inactive, and of all records of that dimension.
\<close>

definition built_from :: "string set \<Rightarrow> bool \<Rightarrow> raw_metric \<Rightarrow> MetricResult \<Rightarrow> bool" where
  "built_from inactive_names all_inactive raw m =
     (raw_name raw = Some (name m) \<and> raw_dimension raw = Some (dimension m) \<and>
      raw_severity raw = Some (severity m) \<and> tags m = tags_or_empty raw \<and>
      active m = (\<not> (all_inactive \<or> name m \<in> inactive_names)))"

definition raw_inactive :: "string set \<Rightarrow> bool \<Rightarrow> raw_metric \<Rightarrow> bool" where
  "raw_inactive inactive_names all_inactive raw =
     (all_inactive \<or> (case raw_name raw of None \<Rightarrow> False | Some n \<Rightarrow> n \<in> inactive_names))"

definition severity_of :: "raw_metric \<Rightarrow> int" where
  "severity_of raw = (case raw_severity raw of None \<Rightarrow> 0 | Some s \<Rightarrow> s)"

definition doc_current :: "string \<Rightarrow> string set \<Rightarrow> bool \<Rightarrow> raw_metric list \<Rightarrow> int" where
  "doc_current d inactive_names all_inactive raws =
     sum_list (map severity_of
       (filter (\<lambda>raw. raw_dimension raw = Some d \<and> raw_inactive inactive_names all_inactive raw) raws))"

definition doc_maximum :: "string \<Rightarrow> raw_metric list \<Rightarrow> int" where
  "doc_maximum d raws =
     sum_list (map severity_of (filter (\<lambda>raw. raw_dimension raw = Some d) raws))"

text \<open>
  \<open>frame h0 h\<close>: the heap \<open>h\<close> extends \<open>h0\<close> and agrees with it on every address of \<open>h0\<close>.
  \<open>post h0 Q r\<close>: the run \<open>r\<close> leaves such a heap, and \<open>Q\<close> holds of a returned value.
  \<open>result_fresh h0 a h\<close>: \<open>a\<close> is an address beyond \<open>h0\<close> holding a \<open>ScoreResult\<close> whose
  \<open>dimensions\<close>, \<open>compliance\<close> and \<open>metrics\<close> containers lie beyond \<open>h0\<close> as well.
\<close>

definition frame :: "heap \<Rightarrow> heap \<Rightarrow> bool" where
  "frame h0 h = (length h0 \<le> length h \<and> take (length h0) h = h0)"

definition post :: "heap \<Rightarrow> ('a \<Rightarrow> heap \<Rightarrow> bool) \<Rightarrow> 'a run \<Rightarrow> bool" where
  "post h0 Q r = (frame h0 (snd r) \<and> (\<forall>x. fst r = Returned x \<longrightarrow> Q x (snd r)))"

definition fresh :: "heap \<Rightarrow> addr \<Rightarrow> heap \<Rightarrow> bool" where
  "fresh h0 a h = (length h0 \<le> a)"

definition anything :: "'a \<Rightarrow> heap \<Rightarrow> bool" where
  "anything x h = True"

definition result_fresh :: "heap \<Rightarrow> addr \<Rightarrow> heap \<Rightarrow> bool" where
  "result_fresh h0 a h =
     (length h0 \<le> a \<and> a < length h \<and>
      (case h ! a of
         ScoreResultObj plat dd ov st ca la n ac ic \<Rightarrow>
           length h0 \<le> dd \<and> length h0 \<le> ca \<and> length h0 \<le> la
       | _ \<Rightarrow> False))"

text \<open>
  What a heap holds, read back as values of the pure model: \<open>raw_at\<close> and \<open>model_in\<close> for the
  document, \<open>metric_at\<close> and \<open>metrics_in\<close> for the metric results, \<open>entries_in\<close> for a dict of
  references, \<open>result_in\<close> for a \<open>ScoreResult\<close> object with everything it refers to.
\<close>

definition the_dimension_score :: "obj \<Rightarrow> DimensionScore option" where
  "the_dimension_score v = (case v of DimensionScoreObj x \<Rightarrow> Some x | _ \<Rightarrow> None)"

definition the_compliance_result :: "obj \<Rightarrow> ComplianceResult option" where
  "the_compliance_result v = (case v of ComplianceResultObj x \<Rightarrow> Some x | _ \<Rightarrow> None)"

definition obj_at :: "(obj \<Rightarrow> 'a option) \<Rightarrow> heap \<Rightarrow> addr \<Rightarrow> 'a option" where
  "obj_at sel h a = (if a < length h then sel (h ! a) else None)"

definition raw_at :: "heap \<Rightarrow> addr \<Rightarrow> raw_metric option" where
  "raw_at h ma =
     (case obj_at the_metric_dict h ma of
        None \<Rightarrow> None
      | Some (n, d, s, t) \<Rightarrow>
          (case t of
             None \<Rightarrow>
               Some \<lparr>raw_name = n, raw_dimension = d, raw_severity = s, raw_tags = None\<rparr>
           | Some ta \<Rightarrow>
               (case obj_at the_strings h ta of
                  None \<Rightarrow> None
                | Some ts \<Rightarrow>
                    Some \<lparr>raw_name = n, raw_dimension = d, raw_severity = s,
                          raw_tags = Some ts\<rparr>)))"

definition metric_at :: "heap \<Rightarrow> addr \<Rightarrow> MetricResult option" where
  "metric_at h ra =
     (case obj_at the_metric_result h ra of
        None \<Rightarrow> None
      | Some (nm, dm, sv, ta, act) \<Rightarrow>
          (case obj_at the_strings h ta of
             None \<Rightarrow> None
           | Some ts \<Rightarrow>
               Some \<lparr>name = nm, dimension = dm, severity = sv, tags = ts, active = act\<rparr>))"

definition metrics_in :: "heap \<Rightarrow> addr list \<Rightarrow> MetricResult list \<Rightarrow> bool" where
  "metrics_in h ras ms = list_all2 (\<lambda>ra m. metric_at h ra = Some m) ras ms"

definition raws_in :: "heap \<Rightarrow> addr list \<Rightarrow> raw_metric list \<Rightarrow> bool" where
  "raws_in h mas rs = list_all2 (\<lambda>ma r. raw_at h ma = Some r) mas rs"

definition entries_in ::
  "(obj \<Rightarrow> 'a option) \<Rightarrow> heap \<Rightarrow> (string, addr) dict \<Rightarrow> (string, 'a) dict \<Rightarrow> bool" where
  "entries_in sel h es ps =
     list_all2 (\<lambda>e p. fst e = fst p \<and> obj_at sel h (snd e) = Some (snd p)) es ps"

definition the_score_result ::
  "obj \<Rightarrow> (string \<times> addr \<times> int \<times> pyfloat \<times> addr \<times> addr \<times> int \<times> int \<times> int) option" where
  "the_score_result v =
     (case v of
        ScoreResultObj plat dd ov st ca la n ac ic \<Rightarrow> Some (plat, dd, ov, st, ca, la, n, ac, ic)
      | _ \<Rightarrow> None)"

definition result_in :: "heap \<Rightarrow> addr \<Rightarrow> ScoreResult \<Rightarrow> bool" where
  "result_in h a r =
     (\<exists>dd ca la refs crefs ras.
        obj_at the_score_result h a =
          Some (platform r, dd, overall r, stars r, ca, la,
                total_metrics r, active_threats r, inactive_threats r) \<and>
        obj_at the_dimension_dict h dd = Some refs \<and>
        entries_in the_dimension_score h refs (dimensions r) \<and>
        obj_at the_compliance_dict h ca = Some crefs \<and>
        entries_in the_compliance_result h crefs (compliance r) \<and>
        obj_at the_refs h la = Some ras \<and>
        metrics_in h ras (metrics r))"

definition inactive_in :: "heap \<Rightarrow> addr option \<Rightarrow> string set option \<Rightarrow> bool" where
  "inactive_in h io iopt =
     (case io of
        None \<Rightarrow> iopt = None
      | Some ia \<Rightarrow> (\<exists>names. obj_at the_string_set h ia = Some names \<and> iopt = Some names))"

definition model_in :: "heap \<Rightarrow> addr \<Rightarrow> threat_model \<Rightarrow> bool" where
  "model_in h ta model =
     (\<exists>nm ms.
        obj_at the_doc h ta = Some (nm, ms) \<and> tm_name model = nm \<and>
        (case ms of
           None \<Rightarrow> tm_metrics model = None
         | Some rla \<Rightarrow>
             (\<exists>mas rs. obj_at the_refs h rla = Some mas \<and> raws_in h mas rs \<and>
                tm_metrics model = Some rs)))"

subsection \<open>Test documents\<close>

text \<open>The helpers and inputs of \<open>test_score_calculator.py\<close>.\<close>

definition make_metric :: "string \<Rightarrow> string \<Rightarrow> int \<Rightarrow> string list \<Rightarrow> raw_metric" where
  "make_metric n d s ts =
     \<lparr>raw_name = Some n, raw_dimension = Some d, raw_severity = Some s, raw_tags = Some ts\<rparr>"

definition make_threat_model :: "raw_metric list \<Rightarrow> threat_model" where
  "make_threat_model ms = \<lparr>tm_name = Some ''test model'', tm_metrics = Some ms\<rparr>"

definition model_integer_division :: threat_model where
  "model_integer_division =
     make_threat_model [make_metric ''t1'' ''network'' 3 [], make_metric ''t2'' ''network'' 4 []]"

definition empty_dimension :: "string \<Rightarrow> string \<times> DimensionScore" where
  "empty_dimension d = (d, \<lparr>dim_name = d, current = 0, maximum = 0, score = - 1\<rparr>)"

definition result_integer_division :: ScoreResult where
  "result_integer_division =
     \<lparr>platform = ''test model'',
      dimensions =
        [(''network'', \<lparr>dim_name = ''network'', current = 3, maximum = 7, score = 42\<rparr>),
         empty_dimension ''system services'', empty_dimension ''system integrity'',
         empty_dimension ''credentials'', empty_dimension ''applications''],
      overall = 42, stars = 21 / 10, compliance = [],
      metrics =
        [\<lparr>name = ''t1'', dimension = ''network'', severity = 3, tags = [], active = False\<rparr>,
         \<lparr>name = ''t2'', dimension = ''network'', severity = 4, tags = [], active = True\<rparr>],
      total_metrics = 2, active_threats = 1, inactive_threats = 1\<rparr>"

definition model_empty :: threat_model where
  "model_empty = make_threat_model []"

definition model_partial_compliance :: threat_model where
  "model_partial_compliance =
     make_threat_model
       [make_metric ''t1'' ''network'' 3 [''CIS Benchmark Level 1,A''],
        make_metric ''t2'' ''network'' 2 [''CIS Benchmark Level 1,B'']]"

definition result_partial_compliance :: ScoreResult where
  "result_partial_compliance =
     \<lparr>platform = ''test model'',
      dimensions =
        [(''network'', \<lparr>dim_name = ''network'', current = 3, maximum = 5, score = 60\<rparr>),
         empty_dimension ''system services'', empty_dimension ''system integrity'',
         empty_dimension ''credentials'', empty_dimension ''applications''],
      overall = 60, stars = 3,
      compliance =
        [(''CIS Benchmark Level 1'',
          \<lparr>tag = ''CIS Benchmark Level 1'', compliant = 1, total = 2, percentage = 50\<rparr>)],
      metrics =
        [\<lparr>name = ''t1'', dimension = ''network'', severity = 3,
          tags = [''CIS Benchmark Level 1,A''], active = False\<rparr>,
         \<lparr>name = ''t2'', dimension = ''network'', severity = 2,
          tags = [''CIS Benchmark Level 1,B''], active = True\<rparr>],
      total_metrics = 2, active_threats = 1, inactive_threats = 1\<rparr>"

definition model_unknown_dimension :: threat_model where
  "model_unknown_dimension =
     make_threat_model
       [make_metric ''net1'' ''network'' 4 [], make_metric ''odd1'' ''physical'' 2 []]"

definition model_all_inactive :: threat_model where
  "model_all_inactive =
     make_threat_model
       [make_metric ''threat1'' ''network'' 5 [], make_metric ''threat2'' ''network'' 3 []]"

definition result_all_inactive :: ScoreResult where
  "result_all_inactive =
     \<lparr>platform = ''test model'',
      dimensions =
        [(''network'', \<lparr>dim_name = ''network'', current = 8, maximum = 8, score = 100\<rparr>),
         empty_dimension ''system services'', empty_dimension ''system integrity'',
         empty_dimension ''credentials'', empty_dimension ''applications''],
      overall = 100, stars = 5, compliance = [],
      metrics =
        [\<lparr>name = ''threat1'', dimension = ''network'', severity = 5, tags = [], active = False\<rparr>,
         \<lparr>name = ''threat2'', dimension = ''network'', severity = 3, tags = [], active = False\<rparr>],
      total_metrics = 2, active_threats = 0, inactive_threats = 2\<rparr>"

definition result_empty :: ScoreResult where
  "result_empty =
     \<lparr>platform = ''test model'',
      dimensions =
        [empty_dimension ''network'',
         empty_dimension ''system services'', empty_dimension ''system integrity'',
         empty_dimension ''credentials'', empty_dimension ''applications''],
      overall = 0, stars = 0, compliance = [], metrics = [],
      total_metrics = 0, active_threats = 0, inactive_threats = 0\<rparr>"

definition model_no_keys :: threat_model where
  "model_no_keys = \<lparr>tm_name = None, tm_metrics = None\<rparr>"

definition metric_no_tags :: raw_metric where
  "metric_no_tags =
     \<lparr>raw_name = Some ''t1'', raw_dimension = Some ''network'', raw_severity = Some 3,
      raw_tags = None\<rparr>"

definition model_no_tags :: threat_model where
  "model_no_tags = \<lparr>tm_name = None, tm_metrics = Some [metric_no_tags]\<rparr>"

definition result_no_tags :: ScoreResult where
  "result_no_tags =
     \<lparr>platform = ''unknown'',
      dimensions =
        [(''network'', \<lparr>dim_name = ''network'', current = 0, maximum = 3, score = 0\<rparr>),
         empty_dimension ''system services'', empty_dimension ''system integrity'',
         empty_dimension ''credentials'', empty_dimension ''applications''],
      overall = 0, stars = 0, compliance = [],
      metrics =
        [\<lparr>name = ''t1'', dimension = ''network'', severity = 3, tags = [], active = True\<rparr>],
      total_metrics = 1, active_threats = 1, inactive_threats = 0\<rparr>"

definition metric_no_severity :: raw_metric where
  "metric_no_severity =
     \<lparr>raw_name = Some ''t2'', raw_dimension = Some ''network'', raw_severity = None,
      raw_tags = Some []\<rparr>"

definition model_no_severity :: threat_model where
  "model_no_severity = make_threat_model [metric_no_tags, metric_no_severity]"

definition heap_integer_division :: heap where
  "heap_integer_division =
     [StrList [''CIS,A''],
      MetricDict (Some ''t1'') (Some ''network'') (Some 3) (Some 0),
      MetricDict (Some ''t2'') (Some ''network'') (Some 4) None,
      RefList [1, 2],
      DocObj (Some ''test model'') (Some 3),
      StrSet {''t1''}]"

definition heap_after_integer_division :: heap where
  "heap_after_integer_division =
     heap_integer_division @
     [RefList [7, 9],
      MetricResultObj ''t1'' ''network'' 3 0 False,
      StrList [],
      MetricResultObj ''t2'' ''network'' 4 8 True,
      AccumDict
        [(''network'', 3, 7), (''system services'', 0, 0), (''system integrity'', 0, 0),
         (''credentials'', 0, 0), (''applications'', 0, 0)],
      DimensionDict
        [(''network'', 12), (''system services'', 13), (''system integrity'', 14),
         (''credentials'', 15), (''applications'', 16)],
      DimensionScoreObj \<lparr>dim_name = ''network'', current = 3, maximum = 7, score = 42\<rparr>,
      DimensionScoreObj (snd (empty_dimension ''system services'')),
      DimensionScoreObj (snd (empty_dimension ''system integrity'')),
      DimensionScoreObj (snd (empty_dimension ''credentials'')),
      DimensionScoreObj (snd (empty_dimension ''applications'')),
      StrSet {''CIS''},
      ComplianceDict [(''CIS'', 20)],
      StrList [''CIS''],
      ComplianceResultObj \<lparr>tag = ''CIS'', compliant = 1, total = 1, percentage = 100\<rparr>,
      ScoreResultObj ''test model'' 11 42 (21 / 10) 18 6 2 1 1]"

definition model_of_heap_integer_division :: threat_model where
  "model_of_heap_integer_division =
     make_threat_model
       [make_metric ''t1'' ''network'' 3 [''CIS,A''],
        \<lparr>raw_name = Some ''t2'', raw_dimension = Some ''network'', raw_severity = Some 4,
         raw_tags = None\<rparr>]"

section \<open>Properties of the loops\<close>

subsection \<open>Sums over a metric list\<close>

lemma spec_current_Nil [simp]: "spec_current d [] = 0"
  by (simp add: spec_current_def)

lemma spec_maximum_Nil [simp]: "spec_maximum d [] = 0"
  by (simp add: spec_maximum_def)

lemma spec_current_Cons:
  "spec_current d (m # ms) =
     (if dimension m = d \<and> \<not> active m then severity m else 0) + spec_current d ms"
  by (simp add: spec_current_def)

lemma spec_maximum_Cons:
  "spec_maximum d (m # ms) = (if dimension m = d then severity m else 0) + spec_maximum d ms"
  by (simp add: spec_maximum_def)

subsection \<open>The metric-building loop\<close>

lemma build_metrics_acc:
  "build_metrics rs i a acc =
     (case build_metrics rs i a [] of Inl e \<Rightarrow> Inl e | Inr ms \<Rightarrow> Inr (acc @ ms))"
proof (induction rs arbitrary: acc)
  case Nil
  show ?case by simp
next
  case (Cons r rs)
  show ?case
  proof (cases "metric_result r i a")
    case (Inl e)
    then show ?thesis by simp
  next
    case (Inr m)
    have l: "build_metrics (r # rs) i a acc = build_metrics rs i a (acc @ [m])"
      and r: "build_metrics (r # rs) i a [] = build_metrics rs i a [m]"
      using Inr by simp_all
    show ?thesis
    proof (cases "build_metrics rs i a []")
      case (Inl e)
      then show ?thesis
        unfolding l r using Cons.IH [of "acc @ [m]"] Cons.IH [of "[m]"] by simp
    next
      case (Inr ms)
      then show ?thesis
        unfolding l r using Cons.IH [of "acc @ [m]"] Cons.IH [of "[m]"] by simp
    qed
  qed
qed

lemma build_metrics_Cons:
  "build_metrics (r # rs) i a [] =
     (case metric_result r i a of
        Inl e \<Rightarrow> Inl e
      | Inr m \<Rightarrow> (case build_metrics rs i a [] of Inl e \<Rightarrow> Inl e | Inr ms \<Rightarrow> Inr (m # ms)))"
proof (cases "metric_result r i a")
  case (Inl e)
  then show ?thesis by simp
next
  case (Inr m)
  have "build_metrics (r # rs) i a [] = build_metrics rs i a [m]"
    using Inr by simp
  then show ?thesis
    using Inr build_metrics_acc [of rs i a "[m]"] by (simp split: sum.splits)
qed

lemma build_metrics_Inr_all2:
  "build_metrics rs i a [] = Inr ms \<Longrightarrow> list_all2 (\<lambda>r m. metric_result r i a = Inr m) rs ms"
proof (induction rs arbitrary: ms)
  case Nil
  then show ?case by simp
next
  case (Cons r rs)
  then show ?case
    by (auto simp: build_metrics_Cons simp del: build_metrics.simps(2) split: sum.splits)
qed

lemma build_metrics_all2_Inr:
  "list_all2 (\<lambda>r m. metric_result r i a = Inr m) rs ms \<Longrightarrow> build_metrics rs i a [] = Inr ms"
  by (induction rule: list_all2_induct) (simp_all add: build_metrics_Cons del: build_metrics.simps(2))

lemma build_metrics_cong:
  "(\<And>r. r \<in> set rs \<Longrightarrow> metric_result r i a = metric_result r i' a') \<Longrightarrow>
   build_metrics rs i a [] = build_metrics rs i' a' []"
proof (induction rs)
  case Nil
  show ?case by simp
next
  case (Cons r rs)
  have "build_metrics rs i a [] = build_metrics rs i' a' []"
    using Cons by simp
  moreover have "metric_result r i a = metric_result r i' a'"
    using Cons.prems by simp
  ultimately show ?case
    by (simp only: build_metrics_Cons)
qed

subsection \<open>Dictionary facts\<close>

lemma update_fresh: "k \<notin> fst ` set al \<Longrightarrow> AList.update k v al = al @ [(k, v)]"
  by (induction al) auto

lemma update_keys_present: "k \<in> fst ` set al \<Longrightarrow> map fst (AList.update k v al) = map fst al"
  by (induction al) auto

lemma map_of_key_iff: "(map_of al k = None) = (k \<notin> fst ` set al)"
  by (simp add: map_of_eq_None_iff)

subsection \<open>The accumulation loop\<close>

lemma accumulate_dimensions_Inr:
  "accumulate_dimensions ms acc = Inr acc' \<Longrightarrow>
     map fst acc' = map fst acc \<and>
     (\<forall>m \<in> set ms. dimension m \<in> fst ` set acc) \<and>
     (\<forall>d c x. map_of acc d = Some (c, x) \<longrightarrow>
        map_of acc' d = Some (c + spec_current d ms, x + spec_maximum d ms))"
proof (induction ms arbitrary: acc)
  case Nil
  then show ?case by simp
next
  case (Cons m ms)
  from Cons.prems obtain c0 x0 where
    look: "map_of acc (dimension m) = Some (c0, x0)"
    by (auto split: option.splits)
  define acc1 where
    "acc1 = AList.update (dimension m)
              (if \<not> active m then c0 + severity m else c0, x0 + severity m) acc"
  have step: "accumulate_dimensions ms acc1 = Inr acc'"
    using Cons.prems look by (simp add: acc1_def Let_def)
  have key: "dimension m \<in> fst ` set acc"
    using look by (metis map_of_key_iff option.distinct(1))
  have keys1: "map fst acc1 = map fst acc"
    unfolding acc1_def using key by (rule update_keys_present)
  note IH = Cons.IH [OF step]
  have k: "map fst acc' = map fst acc"
    using IH keys1 by simp
  have dims: "\<forall>m' \<in> set (m # ms). dimension m' \<in> fst ` set acc"
  proof -
    have "fst ` set acc1 = fst ` set acc"
      using keys1 by (metis set_map)
    then show ?thesis using IH key by simp
  qed
  have vals: "\<forall>d c x. map_of acc d = Some (c, x) \<longrightarrow>
        map_of acc' d = Some (c + spec_current d (m # ms), x + spec_maximum d (m # ms))"
  proof (intro allI impI)
    fix d c x
    assume a: "map_of acc d = Some (c, x)"
    show "map_of acc' d = Some (c + spec_current d (m # ms), x + spec_maximum d (m # ms))"
    proof (cases "d = dimension m")
      case True
      then have cx: "c = c0" "x = x0" using a look by simp_all
      have "map_of acc1 d =
              Some (if \<not> active m then c0 + severity m else c0, x0 + severity m)"
        using True by (simp add: acc1_def update_conv')
      then have "map_of acc' d =
              Some ((if \<not> active m then c0 + severity m else c0) + spec_current d ms,
                    (x0 + severity m) + spec_maximum d ms)"
        using IH by blast
      then show ?thesis
        using True cx by (simp add: spec_current_Cons spec_maximum_Cons)
    next
      case False
      then have "map_of acc1 d = Some (c, x)"
        using a by (simp add: acc1_def update_conv')
      then have "map_of acc' d = Some (c + spec_current d ms, x + spec_maximum d ms)"
        using IH by blast
      then show ?thesis
        using False by (simp add: spec_current_Cons spec_maximum_Cons)
    qed
  qed
  from k dims vals show ?case by blast
qed

lemma accumulate_dimensions_total:
  "\<forall>m \<in> set ms. dimension m \<in> fst ` set acc \<Longrightarrow> \<exists>acc'. accumulate_dimensions ms acc = Inr acc'"
proof (induction ms arbitrary: acc)
  case Nil
  then show ?case by simp
next
  case (Cons m ms)
  then have "dimension m \<in> fst ` set acc" by simp
  then obtain c0 x0 where look: "map_of acc (dimension m) = Some (c0, x0)"
    by (metis map_of_key_iff not_None_eq surj_pair)
  define acc1 where
    "acc1 = AList.update (dimension m)
              (if \<not> active m then c0 + severity m else c0, x0 + severity m) acc"
  have "fst ` set acc1 = fst ` set acc"
    unfolding acc1_def using \<open>dimension m \<in> fst ` set acc\<close> by (auto simp: dom_update)
  then have "\<forall>m' \<in> set ms. dimension m' \<in> fst ` set acc1"
    using Cons.prems by simp
  from Cons.IH [OF this] obtain acc' where "accumulate_dimensions ms acc1 = Inr acc'" ..
  then show ?case
    using look by (simp add: acc1_def Let_def)
qed

lemma accumulate_dimensions_first_unknown:
  "List.find (\<lambda>m. dimension m \<notin> fst ` set acc) ms = Some m0 \<Longrightarrow>
     accumulate_dimensions ms acc = Inl (KeyError (dimension m0))"
proof (induction ms arbitrary: acc)
  case Nil
  then show ?case by simp
next
  case (Cons m ms)
  show ?case
  proof (cases "dimension m \<in> fst ` set acc")
    case False
    then have "m0 = m" using Cons.prems by simp
    moreover have "map_of acc (dimension m) = None"
      using False by (simp add: map_of_key_iff)
    ultimately show ?thesis by simp
  next
    case True
    then obtain c0 x0 where look: "map_of acc (dimension m) = Some (c0, x0)"
      by (metis map_of_key_iff not_None_eq surj_pair)
    define acc1 where
      "acc1 = AList.update (dimension m)
                (if \<not> active m then c0 + severity m else c0, x0 + severity m) acc"
    have keys: "fst ` set acc1 = fst ` set acc"
      unfolding acc1_def using True by (auto simp: dom_update)
    have "List.find (\<lambda>m. dimension m \<notin> fst ` set acc1) ms = Some m0"
      using Cons.prems True keys by simp
    from Cons.IH [OF this] show ?thesis
      using look by (simp add: acc1_def Let_def)
  qed
qed

subsection \<open>The scoring loop\<close>

lemma score_dimensions_closed:
  "distinct ds \<Longrightarrow> set ds \<inter> fst ` set dims = {} \<Longrightarrow> set ds \<subseteq> fst ` set acc \<Longrightarrow>
     score_dimensions ds acc (dims, oc, om) =
       Inr (dims @ map (score_entry acc) ds,
            oc + sum_list (map (\<lambda>d. fst (the (map_of acc d))) ds),
            om + sum_list (map (\<lambda>d. snd (the (map_of acc d))) ds))"
proof (induction ds arbitrary: dims oc om)
  case Nil
  show ?case by simp
next
  case (Cons d ds)
  from Cons.prems have "d \<in> fst ` set acc" by simp
  then obtain c x where look: "map_of acc d = Some (c, x)"
    by (metis map_of_key_iff not_None_eq surj_pair)
  define e where "e = \<lparr>dim_name = d, current = c, maximum = x, score = spec_score c x\<rparr>"
  have fresh: "d \<notin> fst ` set dims"
    using Cons.prems by auto
  have upd: "AList.update d e dims = dims @ [(d, e)]"
    using fresh by (rule update_fresh)
  have d1: "distinct ds" and d3: "set ds \<subseteq> fst ` set acc"
    using Cons.prems by simp_all
  have d2: "set ds \<inter> fst ` set (dims @ [(d, e)]) = {}"
    using Cons.prems by auto
  have "score_dimensions (d # ds) acc (dims, oc, om) =
          score_dimensions ds acc (dims @ [(d, e)], oc + c, om + x)"
    using look upd by (simp add: e_def spec_score_def)
  also have "\<dots> = Inr ((dims @ [(d, e)]) @ map (score_entry acc) ds,
            (oc + c) + sum_list (map (\<lambda>d. fst (the (map_of acc d))) ds),
            (om + x) + sum_list (map (\<lambda>d. snd (the (map_of acc d))) ds))"
    by (rule Cons.IH [OF d1 d2 d3])
  also have "\<dots> = Inr (dims @ map (score_entry acc) (d # ds),
            oc + sum_list (map (\<lambda>d. fst (the (map_of acc d))) (d # ds)),
            om + sum_list (map (\<lambda>d. snd (the (map_of acc d))) (d # ds)))"
    using look by (simp add: score_entry_def e_def)
  finally show ?case .
qed

lemma distinct_DIMENSIONS: "distinct DIMENSIONS"
  by (simp add: DIMENSIONS_def)

lemma keys_init_dim_accum: "map fst init_dim_accum = DIMENSIONS"
  by (simp add: init_dim_accum_def comp_def)

lemma map_of_const_entries: "d \<in> set ds \<Longrightarrow> map_of (map (\<lambda>d. (d, v)) ds) d = Some v"
  by (induction ds) auto

lemma map_of_init_dim_accum: "d \<in> set DIMENSIONS \<Longrightarrow> map_of init_dim_accum d = Some (0, 0)"
  unfolding init_dim_accum_def by (rule map_of_const_entries)

text \<open>The dimension pass as a whole, on a metric list whose dimensions are all known.\<close>

lemma dimension_pass:
  assumes "accumulate_dimensions ms init_dim_accum = Inr acc"
  shows "score_dimensions DIMENSIONS acc ([], 0, 0) =
           Inr (map (dim_entry ms) DIMENSIONS,
                sum_list (map (\<lambda>d. spec_current d ms) DIMENSIONS),
                sum_list (map (\<lambda>d. spec_maximum d ms) DIMENSIONS))"
proof -
  note A = accumulate_dimensions_Inr [OF assms]
  have keys: "map fst acc = DIMENSIONS"
    using A keys_init_dim_accum by simp
  then have keyset: "fst ` set acc = set DIMENSIONS"
    by (metis set_map)
  have val: "map_of acc d = Some (spec_current d ms, spec_maximum d ms)"
    if "d \<in> set DIMENSIONS" for d
    using A map_of_init_dim_accum [OF that] by fastforce
  have e: "map (score_entry acc) DIMENSIONS = map (dim_entry ms) DIMENSIONS"
    by (rule map_cong) (simp_all add: score_entry_def dim_entry_def val)
  have c: "map (\<lambda>d. fst (the (map_of acc d))) DIMENSIONS = map (\<lambda>d. spec_current d ms) DIMENSIONS"
    by (rule map_cong) (simp_all add: val)
  have x: "map (\<lambda>d. snd (the (map_of acc d))) DIMENSIONS = map (\<lambda>d. spec_maximum d ms) DIMENSIONS"
    by (rule map_cong) (simp_all add: val)
  have "score_dimensions DIMENSIONS acc ([], 0, 0) =
       Inr ([] @ map (score_entry acc) DIMENSIONS,
            0 + sum_list (map (\<lambda>d. fst (the (map_of acc d))) DIMENSIONS),
            0 + sum_list (map (\<lambda>d. snd (the (map_of acc d))) DIMENSIONS))"
    by (rule score_dimensions_closed) (simp_all add: distinct_DIMENSIONS keyset)
  then show ?thesis
    by (simp add: e c x)
qed

subsection \<open>The compliance pass\<close>

lemma add_tag_prefixes_eq: "add_tag_prefixes ts S = S \<union> tag_prefix ` set ts"
  by (induction ts arbitrary: S) auto

lemma collect_tag_prefixes_eq: "collect_tag_prefixes ms S = S \<union> spec_prefixes ms"
proof (induction ms arbitrary: S)
  case Nil
  show ?case by (simp add: spec_prefixes_def metric_tag_pairs_def)
next
  case (Cons m ms)
  have "spec_prefixes (m # ms) = tag_prefix ` set (tags m) \<union> spec_prefixes ms"
    by (auto simp: spec_prefixes_def metric_tag_pairs_def image_Un image_image)
  then show ?case
    by (auto simp: Cons.IH add_tag_prefixes_eq)
qed

lemma finite_spec_prefixes: "finite (spec_prefixes ms)"
  by (simp add: spec_prefixes_def)

lemma count_tags_eq:
  "count_tags p act ts (tot, cpl) =
     (tot + int (length (filter (\<lambda>t. startswith t p) ts)),
      cpl + (if act then 0 else int (length (filter (\<lambda>t. startswith t p) ts))))"
  by (induction ts arbitrary: tot cpl) auto

lemma count_metrics_eq:
  "count_metrics p ms (tot, cpl) = (tot + spec_total p ms, cpl + spec_compliant p ms)"
proof (induction ms arbitrary: tot cpl)
  case Nil
  show ?case by (simp add: spec_total_def spec_compliant_def metric_tag_pairs_def)
next
  case (Cons m ms)
  have t: "spec_total p (m # ms) =
             int (length (filter (\<lambda>t. startswith t p) (tags m))) + spec_total p ms"
    by (simp add: spec_total_def metric_tag_pairs_def filter_map comp_def)
  have c: "spec_compliant p (m # ms) =
             (if active m then 0 else int (length (filter (\<lambda>t. startswith t p) (tags m))))
               + spec_compliant p ms"
    by (simp add: spec_compliant_def metric_tag_pairs_def filter_map comp_def)
  show ?case
    by (simp add: count_tags_eq Cons.IH t c)
qed

lemma build_compliance_closed:
  "distinct ps \<Longrightarrow> set ps \<inter> fst ` set cd = {} \<Longrightarrow>
     build_compliance ps ms cd =
       cd @ map (compliance_entry ms) (filter (\<lambda>p. spec_total p ms > 0) ps)"
proof (induction ps arbitrary: cd)
  case Nil
  show ?case by simp
next
  case (Cons p ps)
  have cnt: "count_metrics p ms (0, 0) = (spec_total p ms, spec_compliant p ms)"
    by (simp add: count_metrics_eq)
  show ?case
  proof (cases "spec_total p ms > 0")
    case False
    have "set ps \<inter> fst ` set cd = {}" using Cons.prems by auto
    then show ?thesis
      using False cnt Cons.IH [of cd] Cons.prems by simp
  next
    case True
    define e where "e = snd (compliance_entry ms p)"
    have fresh: "p \<notin> fst ` set cd" using Cons.prems by auto
    have upd: "AList.update p e cd = cd @ [(p, e)]"
      using fresh by (rule update_fresh)
    have d2: "set ps \<inter> fst ` set (cd @ [(p, e)]) = {}"
      using Cons.prems by auto
    have "build_compliance (p # ps) ms cd = build_compliance ps ms (cd @ [(p, e)])"
      using True cnt upd by (simp add: e_def compliance_entry_def)
    also have "\<dots> = (cd @ [(p, e)]) @
                  map (compliance_entry ms) (filter (\<lambda>p. spec_total p ms > 0) ps)"
      using Cons.prems d2 by (intro Cons.IH) simp_all
    finally show ?thesis
      using True by (simp add: e_def compliance_entry_def)
  qed
qed

lemma compliance_pass:
  "build_compliance (sorted_list_of_set (collect_tag_prefixes ms {})) ms [] =
     map (compliance_entry ms)
       (filter (\<lambda>p. spec_total p ms > 0) (sorted_list_of_set (spec_prefixes ms)))"
  by (simp add: build_compliance_closed collect_tag_prefixes_eq)

subsection \<open>The result in closed form\<close>

lemma compute_score_Inr:
  assumes "compute_score model io ai = Inr r"
  shows "\<exists>ms. build_metrics (get_metrics model) (inactive_or_empty io) ai [] = Inr ms \<and>
              (\<forall>m \<in> set ms. dimension m \<in> set DIMENSIONS) \<and>
              r = closed_result (get_name model) ms"
proof -
  from assms obtain ms where
    b: "build_metrics (get_metrics model) (inactive_or_empty io) ai [] = Inr ms"
    by (auto simp: compute_score_def Let_def split: sum.splits)
  from assms b obtain acc where a: "accumulate_dimensions ms init_dim_accum = Inr acc"
    by (auto simp: compute_score_def Let_def split: sum.splits)
  have known: "\<forall>m \<in> set ms. dimension m \<in> set DIMENSIONS"
    using accumulate_dimensions_Inr [OF a] keys_init_dim_accum by (metis set_map)
  have "r = closed_result (get_name model) ms"
    using assms b a dimension_pass [OF a] compliance_pass [of ms]
    by (simp add: compute_score_def Let_def closed_result_def spec_overall_def
        overall_current_of_def overall_max_of_def)
  with b known show ?thesis by blast
qed

lemma compute_score_known:
  assumes "build_metrics (get_metrics model) (inactive_or_empty io) ai [] = Inr ms"
    and "\<forall>m \<in> set ms. dimension m \<in> set DIMENSIONS"
  shows "compute_score model io ai = Inr (closed_result (get_name model) ms)"
proof -
  have "\<forall>m \<in> set ms. dimension m \<in> fst ` set init_dim_accum"
    using assms(2) keys_init_dim_accum by (metis set_map)
  from accumulate_dimensions_total [OF this]
  obtain acc where a: "accumulate_dimensions ms init_dim_accum = Inr acc" ..
  show ?thesis
    using assms(1) a dimension_pass [OF a] compliance_pass [of ms]
    by (simp add: compute_score_def Let_def closed_result_def spec_overall_def
        overall_current_of_def overall_max_of_def)
qed

lemma compute_score_build_error:
  "build_metrics (get_metrics model) (inactive_or_empty io) ai [] = Inl e \<Longrightarrow>
     compute_score model io ai = Inl e"
  by (simp add: compute_score_def Let_def)

lemma compute_score_unknown_dimension:
  assumes "build_metrics (get_metrics model) (inactive_or_empty io) ai [] = Inr ms"
    and "List.find (\<lambda>m. dimension m \<notin> set DIMENSIONS) ms = Some m0"
  shows "compute_score model io ai = Inl (KeyError (dimension m0))"
proof -
  have "fst ` set init_dim_accum = set DIMENSIONS"
    using keys_init_dim_accum by (metis set_map)
  then have "List.find (\<lambda>m. dimension m \<notin> fst ` set init_dim_accum) ms = Some m0"
    using assms(2) by simp
  from accumulate_dimensions_first_unknown [OF this] show ?thesis
    using assms(1) by (simp add: compute_score_def Let_def)
qed

lemma map_of_dim_entries:
  "map_of (map (dim_entry ms) ds) d = (if d \<in> set ds then Some (snd (dim_entry ms d)) else None)"
  by (induction ds) (auto simp: dim_entry_def)

lemma map_of_compliance_entries:
  "map_of (map (compliance_entry ms) ps) p =
     (if p \<in> set ps then Some (snd (compliance_entry ms p)) else None)"
  by (induction ps) (auto simp: compliance_entry_def)

lemma closed_dimension_lookup:
  assumes "d \<in> set DIMENSIONS"
  shows "map_of (dimensions (closed_result plat ms)) d = Some (snd (dim_entry ms d))"
  using assms by (simp add: closed_result_def map_of_dim_entries)

lemma closed_dimension_keys: "map fst (dimensions (closed_result plat ms)) = DIMENSIONS"
  by (simp add: closed_result_def comp_def dim_entry_def)

lemma closed_current_sum:
  "sum_list (map (current \<circ> snd) (dimensions (closed_result plat ms))) = overall_current_of ms"
  by (simp add: closed_result_def overall_current_of_def comp_def dim_entry_def)

lemma closed_maximum_sum:
  "sum_list (map (maximum \<circ> snd) (dimensions (closed_result plat ms))) = overall_max_of ms"
  by (simp add: closed_result_def overall_max_of_def comp_def dim_entry_def)

subsection \<open>Inactive names\<close>

lemma metric_result_names_agree:
  assumes "\<And>n. raw_name m = Some n \<Longrightarrow> (n \<in> A) = (n \<in> B)"
  shows "metric_result m A ai = metric_result m B ai"
  using assms by (cases "raw_name m") (simp_all add: metric_result_def)

lemma raw_name_in_metric_names:
  "m \<in> set (get_metrics model) \<Longrightarrow> raw_name m = Some n \<Longrightarrow> n \<in> metric_names model"
  by (force simp: metric_names_def List.map_filter_def)

subsection \<open>Tag prefixes and compliance entries\<close>

lemma startswith_takeWhile: "startswith t (takeWhile P t)"
  by (induction t) simp_all

lemma startswith_refl: "startswith t t"
  by (induction t) simp_all

lemma startswith_tag_prefix: "startswith t (tag_prefix t)"
  by (simp add: tag_prefix_def startswith_takeWhile startswith_refl)

lemma startswith_iff_take: "startswith s p = (take (length p) s = p)"
  by (induction s p rule: startswith.induct) auto

lemma spec_total_pos:
  assumes "p \<in> spec_prefixes ms"
  shows "0 < spec_total p ms"
proof -
  from assms obtain m t where mt: "(m, t) \<in> set (metric_tag_pairs ms)" and p: "p = tag_prefix t"
    by (auto simp: spec_prefixes_def)
  have "(m, t) \<in> set (filter (\<lambda>(m, t). startswith t p) (metric_tag_pairs ms))"
    using mt p by (simp add: startswith_tag_prefix)
  then have "filter (\<lambda>(m, t). startswith t p) (metric_tag_pairs ms) \<noteq> []"
    by (metis empty_iff empty_set)
  then show ?thesis
    by (simp add: spec_total_def)
qed

lemma closed_compliance_lookup:
  "map_of (compliance (closed_result plat ms)) p =
     (if p \<in> spec_prefixes ms \<and> 0 < spec_total p ms
      then Some (snd (compliance_entry ms p)) else None)"
  by (simp add: closed_result_def map_of_compliance_entries finite_spec_prefixes)

lemma compliance_keys_sorted:
  assumes "compute_score model io ai = Inr r"
  shows "map fst (compliance r) = sorted_list_of_set (spec_prefixes (metrics r))"
proof -
  from compute_score_Inr [OF assms] obtain ms where
    r: "r = closed_result (get_name model) ms" by blast
  have "filter (\<lambda>p. 0 < spec_total p ms) (sorted_list_of_set (spec_prefixes ms)) =
        sorted_list_of_set (spec_prefixes ms)"
    by (rule filter_True) (simp add: finite_spec_prefixes spec_total_pos)
  then show ?thesis
    by (simp add: r closed_result_def comp_def compliance_entry_def)
qed

subsection \<open>All metrics inactive\<close>

lemma metric_result_all_inactive: "metric_result m i True = Inr x \<Longrightarrow> \<not> active x"
  by (auto simp: metric_result_def split: option.splits)

lemma build_metrics_all_inactive:
  assumes "build_metrics rs i True [] = Inr ms"
  shows "\<forall>m \<in> set ms. \<not> active m"
proof -
  have "list_all2 (\<lambda>r m. metric_result r i True = Inr m) rs ms"
    using assms by (rule build_metrics_Inr_all2)
  then show ?thesis
    by (induction rule: list_all2_induct) (auto dest: metric_result_all_inactive)
qed

lemma spec_current_all_inactive:
  "\<forall>m \<in> set ms. \<not> active m \<Longrightarrow> spec_current d ms = spec_maximum d ms"
  by (induction ms) (simp_all add: spec_current_Cons spec_maximum_Cons)

lemma overall_current_all_inactive:
  "\<forall>m \<in> set ms. \<not> active m \<Longrightarrow> overall_current_of ms = overall_max_of ms"
  by (simp add: overall_current_of_def overall_max_of_def spec_current_all_inactive)

lemma filter_active_all_inactive: "\<forall>m \<in> set ms. \<not> active m \<Longrightarrow> filter active ms = []"
  by (induction ms) simp_all

lemma closed_dimension_lookup_Some:
  assumes "map_of (dimensions (closed_result plat ms)) d = Some ds"
  shows "d \<in> set DIMENSIONS \<and> ds = snd (dim_entry ms d)"
  using assms by (simp add: closed_result_def map_of_dim_entries split: if_splits)

subsection \<open>Missing keys and unknown dimensions\<close>

lemma metric_result_missing:
  "\<not> has_required_keys m \<Longrightarrow> metric_result m i a = Inl (KeyError (missing_key m))"
  by (auto simp: has_required_keys_def metric_result_def missing_key_def split: option.splits)

lemma metric_result_present:
  assumes "has_required_keys m"
  shows "\<exists>x. metric_result m i a = Inr x"
  using assms by (auto simp: has_required_keys_def metric_result_def)

lemma metric_result_Inr_fields:
  assumes "metric_result m i a = Inr x"
  shows "has_required_keys m \<and> raw_dimension m = Some (dimension x) \<and> tags x = tags_or_empty m"
  using assms
  by (auto simp: has_required_keys_def metric_result_def tags_or_empty_def split: option.splits)

lemma build_metrics_first_missing:
  "List.find (\<lambda>m. \<not> has_required_keys m) rs = Some m0 \<Longrightarrow>
     build_metrics rs i a [] = Inl (KeyError (missing_key m0))"
proof (induction rs)
  case Nil
  then show ?case by simp
next
  case (Cons r rs)
  show ?case
  proof (cases "has_required_keys r")
    case False
    then have "m0 = r" using Cons.prems by simp
    then show ?thesis
      using metric_result_missing [OF False, of i a] by (simp only: build_metrics_Cons) simp
  next
    case True
    from metric_result_present [OF True, of i a] obtain x where
      x: "metric_result r i a = Inr x" ..
    have "List.find (\<lambda>m. \<not> has_required_keys m) rs = Some m0"
      using Cons.prems True by simp
    then have "build_metrics rs i a [] = Inl (KeyError (missing_key m0))"
      by (rule Cons.IH)
    then show ?thesis
      using x by (simp only: build_metrics_Cons) simp
  qed
qed

lemma build_metrics_total:
  "\<forall>m \<in> set rs. has_required_keys m \<Longrightarrow> \<exists>ms. build_metrics rs i a [] = Inr ms"
proof (induction rs)
  case Nil
  show ?case by simp
next
  case (Cons r rs)
  then obtain ms where ms: "build_metrics rs i a [] = Inr ms" by auto
  from Cons.prems have "has_required_keys r" by simp
  from metric_result_present [OF this, of i a] obtain x where x: "metric_result r i a = Inr x" ..
  show ?case
    using ms x by (simp only: build_metrics_Cons) simp
qed

lemma built_tags:
  "list_all2 (\<lambda>r m. metric_result r i a = Inr m) rs ms \<Longrightarrow> map tags ms = map tags_or_empty rs"
  by (induction rule: list_all2_induct) (auto dest: metric_result_Inr_fields)

lemma built_known_dimensions:
  "list_all2 (\<lambda>r m. metric_result r i a = Inr m) rs ms \<Longrightarrow>
     \<forall>r \<in> set rs. \<not> unknown_dimension r \<Longrightarrow> \<forall>m \<in> set ms. dimension m \<in> set DIMENSIONS"
proof (induction rule: list_all2_induct)
  case Nil
  show ?case by simp
next
  case (Cons r rs m ms)
  have "raw_dimension r = Some (dimension m)"
    using Cons.hyps(1) by (blast dest: metric_result_Inr_fields)
  moreover have "\<not> unknown_dimension r" using Cons.prems by simp
  ultimately have "dimension m \<in> set DIMENSIONS"
    by (simp add: unknown_dimension_def)
  then show ?case using Cons by simp
qed

lemma built_first_unknown:
  "list_all2 (\<lambda>r m. metric_result r i a = Inr m) rs ms \<Longrightarrow>
     List.find unknown_dimension rs = Some r0 \<Longrightarrow>
     \<exists>m0. List.find (\<lambda>m. dimension m \<notin> set DIMENSIONS) ms = Some m0 \<and>
          raw_dimension r0 = Some (dimension m0)"
proof (induction rule: list_all2_induct)
  case Nil
  then show ?case by simp
next
  case (Cons r rs m ms)
  have d: "raw_dimension r = Some (dimension m)"
    using Cons.hyps(1) by (blast dest: metric_result_Inr_fields)
  then have u: "unknown_dimension r = (dimension m \<notin> set DIMENSIONS)"
    by (simp add: unknown_dimension_def)
  show ?case
  proof (cases "unknown_dimension r")
    case True
    then have "r0 = r" using Cons.prems by simp
    then show ?thesis using True u d by simp
  next
    case False
    then have "List.find unknown_dimension rs = Some r0" using Cons.prems by simp
    from Cons.IH [OF this] show ?thesis using False u by simp
  qed
qed

lemma find_exists: "x \<in> set xs \<Longrightarrow> P x \<Longrightarrow> \<exists>y. List.find P xs = Some y"
  by (cases "List.find P xs") (auto simp: find_None_iff)

lemma compute_score_missing_key:
  assumes "List.find (\<lambda>m. \<not> has_required_keys m) (get_metrics model) = Some m0"
  shows "compute_score model io ai = Inl (KeyError (missing_key m0))"
  by (rule compute_score_build_error) (rule build_metrics_first_missing [OF assms])

lemma compute_score_first_unknown:
  assumes "\<forall>m \<in> set (get_metrics model). has_required_keys m"
    and "List.find unknown_dimension (get_metrics model) = Some r0"
  shows "\<exists>d0. raw_dimension r0 = Some d0 \<and> d0 \<notin> set DIMENSIONS \<and>
              compute_score model io ai = Inl (KeyError d0)"
proof -
  from build_metrics_total [OF assms(1)] obtain ms where
    b: "build_metrics (get_metrics model) (inactive_or_empty io) ai [] = Inr ms" by blast
  from built_first_unknown [OF build_metrics_Inr_all2 [OF b] assms(2)] obtain m0 where
    f: "List.find (\<lambda>m. dimension m \<notin> set DIMENSIONS) ms = Some m0" and
    d: "raw_dimension r0 = Some (dimension m0)" by blast
  have "dimension m0 \<notin> set DIMENSIONS"
    using f by (auto simp: find_Some_iff)
  with compute_score_unknown_dimension [OF b f] d show ?thesis by blast
qed

lemma compute_score_total:
  assumes "\<forall>m \<in> set (get_metrics model). has_required_keys m \<and> \<not> unknown_dimension m"
  shows "\<exists>r. compute_score model io ai = Inr r"
proof -
  have "\<forall>m \<in> set (get_metrics model). has_required_keys m"
    using assms by blast
  from build_metrics_total [OF this] obtain ms where
    b: "build_metrics (get_metrics model) (inactive_or_empty io) ai [] = Inr ms" by blast
  have "\<forall>m \<in> set ms. dimension m \<in> set DIMENSIONS"
    using build_metrics_Inr_all2 [OF b] assms by (intro built_known_dimensions) blast+
  from compute_score_known [OF b this] show ?thesis by blast
qed

lemma compute_score_tags:
  assumes "compute_score model io ai = Inr r"
  shows "map tags (metrics r) = map tags_or_empty (get_metrics model)"
proof -
  from compute_score_Inr [OF assms] obtain ms where
    b: "build_metrics (get_metrics model) (inactive_or_empty io) ai [] = Inr ms" and
    r: "r = closed_result (get_name model) ms" by blast
  have "metrics r = ms" by (simp add: r closed_result_def)
  then show ?thesis
    using built_tags [OF build_metrics_Inr_all2 [OF b]] by simp
qed

subsection \<open>Active flags and the sign of the totals\<close>

lemma metric_result_active:
  "metric_result m i a = Inr x \<Longrightarrow> active x = (\<not> (a \<or> name x \<in> i))"
  by (auto simp: metric_result_def split: option.splits)

lemma built_active:
  "list_all2 (\<lambda>r m. metric_result r i a = Inr m) rs ms \<Longrightarrow>
     \<forall>m \<in> set ms. active m = (\<not> (a \<or> name m \<in> i))"
  by (induction rule: list_all2_induct) (auto dest: metric_result_active)

lemma compute_score_active:
  assumes "compute_score model io ai = Inr r"
  shows "\<forall>m \<in> set (metrics r). active m = (\<not> (ai \<or> name m \<in> inactive_or_empty io))"
proof -
  from compute_score_Inr [OF assms] obtain ms where
    b: "build_metrics (get_metrics model) (inactive_or_empty io) ai [] = Inr ms" and
    r: "r = closed_result (get_name model) ms" by blast
  have "metrics r = ms" by (simp add: r closed_result_def)
  then show ?thesis
    using built_active [OF build_metrics_Inr_all2 [OF b]] by simp
qed

lemma spec_maximum_nonneg:
  "\<forall>m \<in> set ms. 0 \<le> severity m \<Longrightarrow> 0 \<le> spec_maximum d ms"
  by (induction ms) (simp_all add: spec_maximum_Cons)

lemma overall_max_nonneg:
  assumes "\<forall>m \<in> set ms. 0 \<le> severity m"
  shows "0 \<le> overall_max_of ms"
  unfolding overall_max_of_def
  by (rule sum_list_nonneg) (auto simp: spec_maximum_nonneg [OF assms])

subsection \<open>The returned metrics and the document\<close>

lemma metric_result_built_from:
  "metric_result raw i a = Inr m \<Longrightarrow> built_from i a raw m"
  by (auto simp: metric_result_def built_from_def tags_or_empty_def split: option.splits)

lemma build_metrics_built_from:
  assumes "build_metrics rs i a [] = Inr ms"
  shows "list_all2 (built_from i a) rs ms"
  using build_metrics_Inr_all2 [OF assms]
  by (rule list_all2_mono) (rule metric_result_built_from)

lemma compute_score_built_from:
  assumes "compute_score model io ai = Inr r"
  shows "list_all2 (built_from (inactive_or_empty io) ai) (get_metrics model) (metrics r)"
proof -
  from compute_score_Inr [OF assms] obtain ms where
    b: "build_metrics (get_metrics model) (inactive_or_empty io) ai [] = Inr ms" and
    r: "r = closed_result (get_name model) ms" by blast
  have "metrics r = ms" by (simp add: r closed_result_def)
  with build_metrics_built_from [OF b] show ?thesis by simp
qed

lemma built_from_sums:
  assumes "list_all2 (built_from i a) rs ms"
  shows "spec_current d ms = doc_current d i a rs \<and> spec_maximum d ms = doc_maximum d rs"
  using assms
proof (induction rule: list_all2_induct)
  case Nil
  show ?case by (simp add: spec_current_def spec_maximum_def doc_current_def doc_maximum_def)
next
  case (Cons raw rs m ms)
  from Cons.hyps(1) have
    f: "raw_name raw = Some (name m)" "raw_dimension raw = Some (dimension m)"
       "raw_severity raw = Some (severity m)"
       "active m = (\<not> (a \<or> name m \<in> i))"
    by (simp_all add: built_from_def)
  have s: "severity_of raw = severity m" by (simp add: severity_of_def f)
  have n: "raw_inactive i a raw = (\<not> active m)" by (simp add: raw_inactive_def f)
  from Cons.IH have
    c: "spec_current d ms = doc_current d i a rs" and x: "spec_maximum d ms = doc_maximum d rs"
    by simp_all
  have "spec_current d (m # ms) = doc_current d i a (raw # rs)"
    using c by (simp add: spec_current_def doc_current_def s n f(2))
  moreover have "spec_maximum d (m # ms) = doc_maximum d (raw # rs)"
    using x by (simp add: spec_maximum_def doc_maximum_def s f(2))
  ultimately show ?case by simp
qed

subsection \<open>Frames of the store engine\<close>

lemma frame_refl: "frame h h"
  by (simp add: frame_def)

lemma frame_append: "frame h0 h \<Longrightarrow> frame h0 (h @ vs)"
  by (simp add: frame_def)

lemma frame_update: "frame h0 h \<Longrightarrow> length h0 \<le> a \<Longrightarrow> frame h0 (h[a := v])"
  by (simp add: frame_def)

lemma frame_length: "frame h0 h \<Longrightarrow> length h0 \<le> length h"
  by (simp add: frame_def)

lemma post_Returned: "frame h0 h \<Longrightarrow> Q x h \<Longrightarrow> post h0 Q (Returned x, h)"
  by (simp add: post_def)

lemma post_Raised: "frame h0 h \<Longrightarrow> post h0 Q (Raised e, h)"
  by (simp add: post_def)

lemma post_Stuck: "frame h0 h \<Longrightarrow> post h0 Q (Stuck, h)"
  by (simp add: post_def)

lemma post_any: "frame h0 h \<Longrightarrow> post h0 anything (Returned x, h)"
  by (simp add: post_def anything_def)

lemma post_new_fresh: "frame h0 h \<Longrightarrow> post h0 (fresh h0) (new v h)"
  by (simp add: post_def new_def fresh_def frame_append frame_length)

lemma post_bind:
  assumes "post h0 P r"
    and "\<And>x h. frame h0 h \<Longrightarrow> P x h \<Longrightarrow> post h0 Q (f x h)"
  shows "post h0 Q (bind r f)"
proof (cases r)
  case (Pair out h)
  show ?thesis
  proof (cases out)
    case (Returned x)
    then show ?thesis
      using assms Pair by (simp add: bind_def post_def)
  next
    case (Raised e)
    then show ?thesis
      using assms(1) Pair by (simp add: bind_def post_def)
  next
    case Stuck
    then show ?thesis
      using assms(1) Pair by (simp add: bind_def post_def)
  qed
qed

lemma post_bind_read:
  assumes "frame h0 h" and "\<And>x. post h0 Q (f x h)"
  shows "post h0 Q (bind (read sel a h) f)"
  using assms by (simp add: bind_def read_def post_def split: option.splits)

lemma post_bind_new:
  assumes "frame h0 h"
    and "\<And>a h'. frame h0 h' \<Longrightarrow> length h0 \<le> a \<Longrightarrow> post h0 Q (f a h')"
  shows "post h0 Q (bind (new v h) f)"
  using assms(2) [of "h @ [v]" "length h"] assms(1)
  by (simp add: bind_def new_def frame_append frame_length)

lemma post_bind_store:
  assumes "frame h0 h" and "length h0 \<le> a"
    and "\<And>h'. frame h0 h' \<Longrightarrow> post h0 Q (f () h')"
  shows "post h0 Q (bind (store a v h) f)"
  using assms(3) [of "h[a := v]"] assms(1,2)
  by (simp add: bind_def store_def frame_update post_Stuck)

lemma post_bind_any:
  assumes "post h0 anything r" and "\<And>x h'. frame h0 h' \<Longrightarrow> post h0 Q (f x h')"
  shows "post h0 Q (bind r f)"
  using assms by (blast intro: post_bind)

lemma post_bind_fresh:
  assumes "post h0 (fresh h0) r"
    and "\<And>a h'. frame h0 h' \<Longrightarrow> length h0 \<le> a \<Longrightarrow> post h0 Q (f a h')"
  shows "post h0 Q (bind r f)"
  using assms(1)
proof (rule post_bind)
  fix x h
  assume "frame h0 h" "fresh h0 x h"
  then show "post h0 Q (f x h)"
    using assms(2) by (simp add: fresh_def)
qed

lemma post_metric_result_st:
  assumes "frame h0 h"
  shows "post h0 (fresh h0) (metric_result_st ma ia ai h)"
  unfolding metric_result_st_def
proof (rule post_bind_read [OF assms])
  fix x :: "string option \<times> string option \<times> int option \<times> addr option"
  obtain n d s t where x: "x = (n, d, s, t)" by (cases x) auto
  have member: "post h0 anything
      (if ai then (Returned True, h)
       else bind (read the_string_set ia h) (\<lambda>inactive_names h. (Returned (nm \<in> inactive_names), h)))"
    for nm
    using assms by (auto intro!: post_bind_read post_any)
  have tagsref: "post h0 anything
      (case t of None \<Rightarrow> new (StrList []) h' | Some ta \<Rightarrow> (Returned ta, h'))"
    if "frame h0 h'" for h'
    using that by (cases t) (simp_all add: post_def new_def anything_def frame_append)
  have build: "post h0 (fresh h0)
      (bind (case t of None \<Rightarrow> new (StrList []) h' | Some ta \<Rightarrow> (Returned ta, h'))
         (\<lambda>ta h. new (MetricResultObj nm dm sv ta act) h))"
    if "frame h0 h'" for h' nm dm sv act
    by (rule post_bind_any [OF tagsref [OF that]]) (rule post_new_fresh)
  have rest: "post h0 (fresh h0)
      (case d of
         None \<Rightarrow> (Raised (KeyError ''dimension''), h')
       | Some dm \<Rightarrow>
           (case s of
              None \<Rightarrow> (Raised (KeyError ''severity''), h')
            | Some sv \<Rightarrow>
                bind (case t of None \<Rightarrow> new (StrList []) h' | Some ta \<Rightarrow> (Returned ta, h'))
                  (\<lambda>ta h. new (MetricResultObj nm dm sv ta act) h)))"
    if "frame h0 h'" for h' nm act
    using that build [OF that] by (auto intro: post_Raised split: option.splits)
  show "post h0 (fresh h0)
     ((\<lambda>(n, d, s, t) h.
         case n of
           None \<Rightarrow> (Raised (KeyError ''name''), h)
         | Some nm \<Rightarrow>
             bind (if ai then (Returned True, h)
                   else bind (read the_string_set ia h)
                          (\<lambda>inactive_names h. (Returned (nm \<in> inactive_names), h)))
               (\<lambda>is_inactive h.
                  case d of
                    None \<Rightarrow> (Raised (KeyError ''dimension''), h)
                  | Some dm \<Rightarrow>
                      (case s of
                         None \<Rightarrow> (Raised (KeyError ''severity''), h)
                       | Some sv \<Rightarrow>
                           bind (case t of None \<Rightarrow> new (StrList []) h
                                         | Some ta \<Rightarrow> (Returned ta, h))
                             (\<lambda>ta h. new (MetricResultObj nm dm sv ta (\<not> is_inactive)) h)))) x h)"
  proof (cases n)
    case None
    then show ?thesis using x assms by (simp add: post_Raised)
  next
    case (Some nm)
    show ?thesis
      unfolding x
      by (simp only: Some prod.case option.case) (rule post_bind_any [OF member], rule rest)
  qed
qed

lemma post_build_metrics_st:
  "frame h0 h \<Longrightarrow> length h0 \<le> la \<Longrightarrow> post h0 anything (build_metrics_st mas ia ai la h)"
proof (induction mas arbitrary: h)
  case Nil
  then show ?case by (simp add: post_any)
next
  case (Cons ma mas)
  show ?case
    unfolding build_metrics_st.simps
    by (rule post_bind_fresh [OF post_metric_result_st [OF Cons.prems(1)]],
        rule post_bind_read, assumption,
        rule post_bind_store, assumption, rule Cons.prems(2),
        rule Cons.IH [OF _ Cons.prems(2)])
qed

lemma post_accumulate_dimensions_st:
  "frame h0 h \<Longrightarrow> length h0 \<le> da \<Longrightarrow> post h0 anything (accumulate_dimensions_st ras da h)"
proof (induction ras arbitrary: h)
  case Nil
  then show ?case by (simp add: post_any)
next
  case (Cons ra ras)
  have step: "post h0 anything
      (bind (store da v h) (\<lambda>_ h. accumulate_dimensions_st ras da h))" for v
    by (rule post_bind_store [OF Cons.prems]) (rule Cons.IH [OF _ Cons.prems(2)])
  show ?case
    unfolding accumulate_dimensions_st.simps
    apply (rule post_bind_read [OF Cons.prems(1)])
    apply clarsimp
    apply (rule post_bind_read [OF Cons.prems(1)])
    using Cons.prems(1) step
    apply (auto simp: Let_def intro: post_Raised split: option.splits)
    done
qed

lemma post_score_dimensions_st:
  "frame h0 h \<Longrightarrow> length h0 \<le> dd \<Longrightarrow> post h0 anything (score_dimensions_st ds da dd st h)"
proof (induction ds arbitrary: h st)
  case Nil
  then show ?case by (simp add: post_any)
next
  case (Cons d ds)
  obtain oc om where st: "st = (oc, om)" by (cases st)
  have step: "post h0 anything
      (bind (new v h) (\<lambda>sa h.
         bind (read the_dimension_dict dd h) (\<lambda>dims h.
         bind (store dd (DimensionDict (AList.update d sa dims)) h) (\<lambda>_ h.
           score_dimensions_st ds da dd st' h))))" for v st'
    by (rule post_bind_new [OF Cons.prems(1)], rule post_bind_read, assumption,
        rule post_bind_store, assumption, rule Cons.prems(2),
        rule Cons.IH [OF _ Cons.prems(2)])
  show ?case
    unfolding st score_dimensions_st.simps
    apply (rule post_bind_read [OF Cons.prems(1)])
    using Cons.prems(1) step
    apply (auto simp: Let_def intro: post_Raised split: option.splits)
    done
qed

lemma post_add_tag_prefixes_st:
  "frame h0 h \<Longrightarrow> length h0 \<le> pa \<Longrightarrow> post h0 anything (add_tag_prefixes_st ts pa h)"
proof (induction ts arbitrary: h)
  case Nil
  then show ?case by (simp add: post_any)
next
  case (Cons t ts)
  show ?case
    unfolding add_tag_prefixes_st.simps
    by (rule post_bind_read [OF Cons.prems(1)],
        rule post_bind_store [OF Cons.prems],
        rule Cons.IH [OF _ Cons.prems(2)])
qed

lemma post_collect_tag_prefixes_st:
  "frame h0 h \<Longrightarrow> length h0 \<le> pa \<Longrightarrow> post h0 anything (collect_tag_prefixes_st ras pa h)"
proof (induction ras arbitrary: h)
  case Nil
  then show ?case by (simp add: post_any)
next
  case (Cons ra ras)
  have step: "post h0 anything
      (bind (add_tag_prefixes_st ts pa h) (\<lambda>_ h. collect_tag_prefixes_st ras pa h))" for ts
    by (rule post_bind_any [OF post_add_tag_prefixes_st [OF Cons.prems]])
      (rule Cons.IH [OF _ Cons.prems(2)])
  show ?case
    unfolding collect_tag_prefixes_st.simps
    apply (rule post_bind_read [OF Cons.prems(1)])
    apply clarsimp
    apply (rule post_bind_read [OF Cons.prems(1)])
    apply (rule step)
    done
qed

lemma post_count_metrics_st:
  "frame h0 h \<Longrightarrow> post h0 anything (count_metrics_st p ras st h)"
proof (induction ras arbitrary: st)
  case Nil
  then show ?case by (simp add: post_any)
next
  case (Cons ra ras)
  show ?case
    unfolding count_metrics_st.simps
    apply (rule post_bind_read [OF Cons.prems(1)])
    apply clarsimp
    apply (rule post_bind_read [OF Cons.prems(1)])
    apply (rule Cons.IH [OF Cons.prems])
    done
qed

lemma post_build_compliance_st:
  "frame h0 h \<Longrightarrow> length h0 \<le> ca \<Longrightarrow> post h0 anything (build_compliance_st ps ras ca h)"
proof (induction ps arbitrary: h)
  case Nil
  then show ?case by (simp add: post_any)
next
  case (Cons p ps)
  have step: "post h0 anything
      (bind (new v h') (\<lambda>ea h.
         bind (read the_compliance_dict ca h) (\<lambda>comp_dict h.
         bind (store ca (ComplianceDict (AList.update p ea comp_dict)) h) (\<lambda>_ h.
           build_compliance_st ps ras ca h))))" if "frame h0 h'" for v h'
    by (rule post_bind_new [OF that], rule post_bind_read, assumption,
        rule post_bind_store, assumption, rule Cons.prems(2),
        rule Cons.IH [OF _ Cons.prems(2)])
  show ?case
    unfolding build_compliance_st.simps
    apply (rule post_bind_any [OF post_count_metrics_st [OF Cons.prems(1)]])
    using step Cons.IH [OF _ Cons.prems(2)]
    apply auto
    done
qed

lemma post_count_active_st:
  "frame h0 h \<Longrightarrow> post h0 anything (count_active_st ras st h)"
proof (induction ras arbitrary: st)
  case Nil
  then show ?case by (simp add: post_any)
next
  case (Cons ra ras)
  obtain ac ic where st: "st = (ac, ic)" by (cases st)
  show ?case
    unfolding st count_active_st.simps
    apply (rule post_bind_read [OF Cons.prems(1)])
    apply (simp only: split_paired_all prod.case)
    apply (rule Cons.IH [OF Cons.prems])
    done
qed

lemma post_dimension_pass_st:
  assumes "frame h0 h"
  shows "post h0 (\<lambda>x h'. length h0 \<le> fst x) (dimension_pass_st ras h)"
  unfolding dimension_pass_st_def
  apply (rule post_bind_new [OF assms])
  apply (rule post_bind_any [OF post_accumulate_dimensions_st], assumption, assumption)
  apply (rule post_bind_new, assumption)
  apply (rule post_bind_any [OF post_score_dimensions_st], assumption, assumption)
  apply (auto simp: Let_def intro!: post_Returned)
  done

lemma post_compliance_pass_st:
  assumes "frame h0 h"
  shows "post h0 (fresh h0) (compliance_pass_st ras h)"
  unfolding compliance_pass_st_def
  apply (rule post_bind_new [OF assms])
  apply (rule post_bind_any [OF post_collect_tag_prefixes_st], assumption, assumption)
  apply (rule post_bind_new, assumption)
  apply (rule post_bind_read, assumption)
  apply (rule post_bind_new, assumption)
  apply (rule post_bind_any [OF post_build_compliance_st], assumption, assumption)
  apply (rule post_Returned, assumption)
  apply (simp add: fresh_def)
  done

lemma post_new_result:
  assumes "frame h0 h" and "length h0 \<le> dd" and "length h0 \<le> ca" and "length h0 \<le> la"
  shows "post h0 (result_fresh h0) (new (ScoreResultObj plat dd ov st ca la n ac ic) h)"
  using assms by (simp add: post_def new_def result_fresh_def frame_append frame_length)

lemma post_score_metrics_st:
  assumes "frame h0 h" and "length h0 \<le> la"
  shows "post h0 (result_fresh h0) (score_metrics_st plat la h)"
  unfolding score_metrics_st_def
  apply (rule post_bind_read [OF assms(1)])
  apply (rule post_bind [OF post_dimension_pass_st [OF assms(1)]])
  apply clarsimp
  apply (rule post_bind_fresh [OF post_compliance_pass_st], assumption)
  apply (rule post_bind_any [OF post_count_active_st], assumption)
  apply clarsimp
  apply (rule post_new_result)
     apply (simp_all add: assms(2))
  done

lemma post_compute_score_st_from:
  assumes "frame h0 h"
  shows "post h0 (result_fresh h0) (compute_score_st ta io ai h)"
proof -
  have arg: "post h0 anything
      (case io of None \<Rightarrow> new (StrSet {}) h | Some ia \<Rightarrow> (Returned ia, h))"
    using assms by (cases io) (simp_all add: post_def new_def anything_def frame_append)
  have get: "post h0 anything
      (case ms of None \<Rightarrow> new (RefList []) h' | Some a \<Rightarrow> (Returned a, h'))"
    if "frame h0 h'" for ms h'
    using that by (cases ms) (simp_all add: post_def new_def anything_def frame_append)
  show ?thesis
    unfolding compute_score_st_def
    apply (rule post_bind_any [OF arg])
    apply (rule post_bind_read, assumption)
    apply clarsimp
    apply (rule post_bind_any [OF get], assumption)
    apply (rule post_bind_read, assumption)
    apply (rule post_bind_new, assumption)
    apply (rule post_bind_any [OF post_build_metrics_st], assumption, assumption)
    apply (rule post_score_metrics_st, assumption, assumption)
    done
qed

subsection \<open>The store engine computes what the pure engine computes\<close>

text \<open>
  On a heap that holds the document and the inactive set, \<open>compute_score_st\<close> raises exactly
  the error \<open>compute_score\<close> returns, and otherwise returns the address of an object that reads
  back as the result of \<open>compute_score\<close>. It is never stuck there.
\<close>

lemma read_obj_at:
  "read sel a h = (case obj_at sel h a of Some x \<Rightarrow> (Returned x, h) | None \<Rightarrow> (Stuck, h))"
  by (simp add: read_def obj_at_def)

lemma bind_read_Some: "obj_at sel h a = Some x \<Longrightarrow> bind (read sel a h) f = f x h"
  by (simp add: read_obj_at bind_def)

lemma bind_new: "bind (new v h) f = f (length h) (h @ [v])"
  by (simp add: bind_def new_def)

lemma bind_store: "a < length h \<Longrightarrow> bind (store a v h) f = f () (h[a := v])"
  by (simp add: bind_def store_def)

lemma bind_Returned: "bind (Returned x, h) f = f x h"
  by (simp add: bind_def)

lemma bind_Raised: "bind (Raised e, h) f = (Raised e, h)"
  by (simp add: bind_def)

lemma fst_bind_Raised: "fst r = Raised e \<Longrightarrow> fst (bind r f) = Raised e"
  by (cases r) (simp add: bind_def)

lemma obj_at_less: "obj_at sel h a = Some x \<Longrightarrow> a < length h"
  by (simp add: obj_at_def split: if_splits)

lemma obj_at_append: "obj_at sel h a = Some x \<Longrightarrow> obj_at sel (h @ vs) a = Some x"
  by (simp add: obj_at_def nth_append split: if_splits)

lemma obj_at_update:
  "obj_at sel h a = Some x \<Longrightarrow> sel (h ! b) = None \<Longrightarrow> obj_at sel (h[b := v]) a = Some x"
proof -
  assume a: "obj_at sel h a = Some x" and b: "sel (h ! b) = None"
  then have "a \<noteq> b"
    by (auto simp: obj_at_def split: if_splits)
  then show ?thesis
    using a by (simp add: obj_at_def split: if_splits)
qed

lemma obj_at_update_same: "b < length h \<Longrightarrow> obj_at sel (h[b := v]) b = sel v"
  by (simp add: obj_at_def)

lemma obj_at_new: "obj_at sel (h @ [v]) (length h) = sel v"
  by (simp add: obj_at_def)

lemma obj_at_frame: "frame h0 h \<Longrightarrow> obj_at sel h0 a = Some x \<Longrightarrow> obj_at sel h a = Some x"
  by (auto simp: obj_at_def frame_def split: if_splits) (metis nth_take)

lemma raw_at_append: "raw_at h ma = Some r \<Longrightarrow> raw_at (h @ vs) ma = Some r"
  by (auto simp: raw_at_def obj_at_append split: option.splits prod.splits)

lemma raw_at_update:
  "raw_at h ma = Some r \<Longrightarrow> the_metric_dict (h ! b) = None \<Longrightarrow> the_strings (h ! b) = None \<Longrightarrow>
     raw_at (h[b := v]) ma = Some r"
  by (auto simp: raw_at_def obj_at_update split: option.splits prod.splits)

lemma metric_at_append: "metric_at h ra = Some m \<Longrightarrow> metric_at (h @ vs) ra = Some m"
  by (auto simp: metric_at_def obj_at_append split: option.splits prod.splits)

lemma metric_at_update:
  "metric_at h ra = Some m \<Longrightarrow> the_metric_result (h ! b) = None \<Longrightarrow>
     the_strings (h ! b) = None \<Longrightarrow> metric_at (h[b := v]) ra = Some m"
  by (auto simp: metric_at_def obj_at_update split: option.splits prod.splits)

lemma metric_at_frame: "frame h0 h \<Longrightarrow> metric_at h0 ra = Some m \<Longrightarrow> metric_at h ra = Some m"
  by (auto simp: metric_at_def obj_at_frame split: option.splits prod.splits)

lemma metric_atD:
  assumes "metric_at h ra = Some m"
  shows "\<exists>ta. obj_at the_metric_result h ra
                  = Some (name m, dimension m, severity m, ta, active m) \<and>
              obj_at the_strings h ta = Some (tags m)"
  using assms by (auto simp: metric_at_def split: option.splits prod.splits)

lemma metrics_in_append: "metrics_in h ras ms \<Longrightarrow> metrics_in (h @ vs) ras ms"
  unfolding metrics_in_def by (erule list_all2_mono) (rule metric_at_append)

lemma metrics_in_update:
  "metrics_in h ras ms \<Longrightarrow> the_metric_result (h ! b) = None \<Longrightarrow> the_strings (h ! b) = None \<Longrightarrow>
     metrics_in (h[b := v]) ras ms"
  unfolding metrics_in_def by (erule list_all2_mono) (rule metric_at_update)

lemma metrics_in_frame: "frame h0 h \<Longrightarrow> metrics_in h0 ras ms \<Longrightarrow> metrics_in h ras ms"
  unfolding metrics_in_def by (erule list_all2_mono) (rule metric_at_frame)

lemma raws_in_append: "raws_in h mas rs \<Longrightarrow> raws_in (h @ vs) mas rs"
  unfolding raws_in_def by (erule list_all2_mono) (rule raw_at_append)

lemma raws_in_update:
  "raws_in h mas rs \<Longrightarrow> the_metric_dict (h ! b) = None \<Longrightarrow> the_strings (h ! b) = None \<Longrightarrow>
     raws_in (h[b := v]) mas rs"
  unfolding raws_in_def by (erule list_all2_mono) (rule raw_at_update)

lemma the_refs_kind:
  assumes "obj_at the_refs h la = Some xs"
  shows "the_metric_dict (h ! la) = None" "the_strings (h ! la) = None"
    "the_metric_result (h ! la) = None" "the_string_set (h ! la) = None"
  using assms
  by (auto simp: obj_at_def the_refs_def the_metric_dict_def the_strings_def
      the_metric_result_def the_string_set_def split: if_splits obj.splits)

lemma metric_result_st_refines:
  assumes "raw_at h ma = Some raw" and "obj_at the_string_set h ia = Some names"
  shows "(\<forall>e. metric_result raw names ai = Inl e \<longrightarrow>
            metric_result_st ma ia ai h = (Raised e, h)) \<and>
         (\<forall>m. metric_result raw names ai = Inr m \<longrightarrow>
            (\<exists>ra vs. metric_result_st ma ia ai h = (Returned ra, h @ vs) \<and>
               metric_at (h @ vs) ra = Some m))"
proof -
  from assms(1) obtain n d s t where
    md: "obj_at the_metric_dict h ma = Some (n, d, s, t)"
    by (auto simp: raw_at_def split: option.splits)
  have raw: "raw_name raw = n" "raw_dimension raw = d" "raw_severity raw = s"
    using assms(1) md by (auto simp: raw_at_def split: option.splits)
  have tg: "case t of None \<Rightarrow> raw_tags raw = None
            | Some ta \<Rightarrow> \<exists>ts. obj_at the_strings h ta = Some ts \<and> raw_tags raw = Some ts"
    using assms(1) md by (auto simp: raw_at_def split: option.splits)
  have member: "(if ai then (Returned True, h)
       else bind (read the_string_set ia h)
              (\<lambda>inactive_names h. (Returned (nm \<in> inactive_names), h)))
     = (Returned (ai \<or> nm \<in> names), h)" for nm
    by (simp add: bind_read_Some [OF assms(2)])
  show ?thesis
  proof (cases n)
    case None
    then show ?thesis
      using raw by (simp add: metric_result_st_def metric_result_def bind_read_Some [OF md])
  next
    case (Some nm)
    note n = this
    show ?thesis
    proof (cases d)
      case None
      then show ?thesis
        using raw n
        by (simp add: metric_result_st_def metric_result_def bind_read_Some [OF md] member
            bind_Returned)
    next
      case (Some dm)
      note d = this
      show ?thesis
      proof (cases s)
        case None
        then show ?thesis
          using raw n d
          by (simp add: metric_result_st_def metric_result_def bind_read_Some [OF md] member
              bind_Returned)
      next
        case (Some sv)
        note s = this
        show ?thesis
        proof (cases t)
          case None
          have run: "metric_result_st ma ia ai h =
              (Returned (Suc (length h)),
               h @ [StrList [], MetricResultObj nm dm sv (length h) (\<not> (ai \<or> nm \<in> names))])"
            using n d s None
            by (simp add: metric_result_st_def bind_read_Some [OF md] member bind_Returned
                bind_new new_def)
          have "metric_at (h @ [StrList [], MetricResultObj nm dm sv (length h)
                    (\<not> (ai \<or> nm \<in> names))]) (Suc (length h)) =
                Some \<lparr>name = nm, dimension = dm, severity = sv, tags = [],
                      active = (\<not> (ai \<or> nm \<in> names))\<rparr>"
            by (simp add: metric_at_def obj_at_def nth_append the_metric_result_def
                the_strings_def)
          moreover have "metric_result raw names ai =
                Inr \<lparr>name = nm, dimension = dm, severity = sv, tags = [],
                      active = (\<not> (ai \<or> nm \<in> names))\<rparr>"
            using raw n d s None tg by (simp add: metric_result_def)
          ultimately show ?thesis
            using run by auto
        next
          case (Some ta)
          from tg Some obtain ts where
            ts: "obj_at the_strings h ta = Some ts" "raw_tags raw = Some ts" by auto
          have run: "metric_result_st ma ia ai h =
              (Returned (length h),
               h @ [MetricResultObj nm dm sv ta (\<not> (ai \<or> nm \<in> names))])"
            using n d s Some
            by (simp add: metric_result_st_def bind_read_Some [OF md] member bind_Returned
                new_def)
          have "metric_at (h @ [MetricResultObj nm dm sv ta (\<not> (ai \<or> nm \<in> names))])
                  (length h) =
                Some \<lparr>name = nm, dimension = dm, severity = sv, tags = ts,
                      active = (\<not> (ai \<or> nm \<in> names))\<rparr>"
            using obj_at_append [OF ts(1)]
            by (simp add: metric_at_def obj_at_new the_metric_result_def)
          moreover have "metric_result raw names ai =
                Inr \<lparr>name = nm, dimension = dm, severity = sv, tags = ts,
                      active = (\<not> (ai \<or> nm \<in> names))\<rparr>"
            using raw n d s ts by (simp add: metric_result_def)
          ultimately show ?thesis
            using run by auto
        qed
      qed
    qed
  qed
qed

lemma build_metrics_st_refines:
  assumes "raws_in h mas rs" and "obj_at the_string_set h ia = Some names"
    and "obj_at the_refs h la = Some xs" and "metrics_in h xs acc"
  shows "(\<forall>e. build_metrics rs names ai acc = Inl e \<longrightarrow>
            fst (build_metrics_st mas ia ai la h) = Raised e) \<and>
         (\<forall>ms. build_metrics rs names ai acc = Inr ms \<longrightarrow>
            (\<exists>h' ras. build_metrics_st mas ia ai la h = (Returned (), h') \<and>
               obj_at the_refs h' la = Some ras \<and> metrics_in h' ras ms))"
  using assms
proof (induction mas arbitrary: h rs xs acc)
  case Nil
  then show ?case by (simp add: raws_in_def)
next
  case (Cons ma mas)
  from Cons.prems(1) obtain r rs' where
    rs: "rs = r # rs'" and r: "raw_at h ma = Some r" and rest: "raws_in h mas rs'"
    by (auto simp: raws_in_def list_all2_Cons1)
  note one = metric_result_st_refines [OF r Cons.prems(2), of ai]
  show ?case
  proof (cases "metric_result r names ai")
    case (Inl e)
    then have "metric_result_st ma ia ai h = (Raised e, h)"
      using one by blast
    then have "build_metrics_st (ma # mas) ia ai la h = (Raised e, h)"
      by (simp add: bind_Raised)
    then show ?thesis
      unfolding rs using Inl by simp
  next
    case (Inr m)
    with one obtain ra vs where
      run: "metric_result_st ma ia ai h = (Returned ra, h @ vs)" and
      m: "metric_at (h @ vs) ra = Some m" by blast
    define h1 where "h1 = h @ vs"
    define h2 where "h2 = h1[la := RefList (xs @ [ra])]"
    have la1: "obj_at the_refs h1 la = Some xs"
      unfolding h1_def using Cons.prems(3) by (rule obj_at_append)
    have la_len: "la < length h1"
      using la1 by (rule obj_at_less)
    note kind = the_refs_kind [OF la1]
    have step: "build_metrics_st (ma # mas) ia ai la h = build_metrics_st mas ia ai la h2"
      using run la_len
      by (simp add: bind_Returned bind_read_Some [OF la1 [unfolded h1_def]] bind_store
          h1_def h2_def)
    have p1: "raws_in h2 mas rs'"
      unfolding h2_def using kind
      by (intro raws_in_update) (simp_all add: h1_def raws_in_append [OF rest])
    have p2: "obj_at the_string_set h2 ia = Some names"
      unfolding h2_def using kind
      by (intro obj_at_update) (simp_all add: h1_def obj_at_append [OF Cons.prems(2)])
    have p3: "obj_at the_refs h2 la = Some (xs @ [ra])"
      unfolding h2_def using la_len by (simp add: obj_at_update_same the_refs_def)
    have "metrics_in h1 (xs @ [ra]) (acc @ [m])"
      using metrics_in_append [OF Cons.prems(4), of vs] m
      by (simp add: metrics_in_def h1_def list_all2_appendI)
    then have p4: "metrics_in h2 (xs @ [ra]) (acc @ [m])"
      unfolding h2_def using kind by (intro metrics_in_update) simp_all
    from Cons.IH [OF p1 p2 p3 p4] show ?thesis
      unfolding step rs using Inr by simp
  qed
qed

lemma accumulate_dimensions_st_refines:
  assumes "metrics_in hm ras ms" and "frame hm h" and "length hm \<le> da"
    and "obj_at the_accum h da = Some acc"
  shows "(\<forall>e. accumulate_dimensions ms acc = Inl e \<longrightarrow>
            fst (accumulate_dimensions_st ras da h) = Raised e) \<and>
         (\<forall>acc'. accumulate_dimensions ms acc = Inr acc' \<longrightarrow>
            (\<exists>h'. accumulate_dimensions_st ras da h = (Returned (), h') \<and>
               obj_at the_accum h' da = Some acc'))"
  using assms
proof (induction ras arbitrary: h ms acc)
  case Nil
  then show ?case by (simp add: metrics_in_def)
next
  case (Cons ra ras)
  from Cons.prems(1) obtain m ms' where
    ms: "ms = m # ms'" and m: "metric_at hm ra = Some m" and rest: "metrics_in hm ras ms'"
    by (auto simp: metrics_in_def list_all2_Cons1)
  from metric_atD [OF metric_at_frame [OF Cons.prems(2) m]] obtain ta where
    rd: "obj_at the_metric_result h ra = Some (name m, dimension m, severity m, ta, active m)"
    by blast
  have da_len: "da < length h"
    using Cons.prems(4) by (rule obj_at_less)
  show ?case
  proof (cases "map_of acc (dimension m)")
    case None
    then have "accumulate_dimensions_st (ra # ras) da h = (Raised (KeyError (dimension m)), h)"
      by (simp add: bind_read_Some [OF rd] bind_read_Some [OF Cons.prems(4)])
    then show ?thesis
      unfolding ms using None by simp
  next
    case (Some cx)
    obtain c x where cx: "cx = (c, x)" by (cases cx)
    define acc1 where
      "acc1 = AList.update (dimension m)
                (if \<not> active m then c + severity m else c, x + severity m) acc"
    define h1 where "h1 = h[da := AccumDict acc1]"
    have step: "accumulate_dimensions_st (ra # ras) da h = accumulate_dimensions_st ras da h1"
      using Some cx da_len
      by (simp add: bind_read_Some [OF rd] bind_read_Some [OF Cons.prems(4)] bind_store
          Let_def acc1_def h1_def)
    have pure: "accumulate_dimensions ms acc = accumulate_dimensions ms' acc1"
      using Some cx ms by (simp add: Let_def acc1_def)
    have f1: "frame hm h1"
      unfolding h1_def using Cons.prems(2,3) by (rule frame_update)
    have a1: "obj_at the_accum h1 da = Some acc1"
      unfolding h1_def using da_len by (simp add: obj_at_update_same the_accum_def)
    from Cons.IH [OF rest f1 Cons.prems(3) a1] show ?thesis
      unfolding step pure .
  qed
qed

lemma add_tag_prefixes_st_refines:
  assumes "obj_at the_string_set h pa = Some S"
  shows "\<exists>h'. add_tag_prefixes_st ts pa h = (Returned (), h') \<and>
              obj_at the_string_set h' pa = Some (add_tag_prefixes ts S) \<and>
              (\<forall>hm. frame hm h \<longrightarrow> length hm \<le> pa \<longrightarrow> frame hm h')"
  using assms
proof (induction ts arbitrary: h S)
  case Nil
  then show ?case by simp
next
  case (Cons t ts)
  have len: "pa < length h"
    using Cons.prems by (rule obj_at_less)
  define h1 where "h1 = h[pa := StrSet (insert (tag_prefix t) S)]"
  have step: "add_tag_prefixes_st (t # ts) pa h = add_tag_prefixes_st ts pa h1"
    using len by (simp add: bind_read_Some [OF Cons.prems] bind_store h1_def)
  have s1: "obj_at the_string_set h1 pa = Some (insert (tag_prefix t) S)"
    unfolding h1_def using len by (simp add: obj_at_update_same the_string_set_def)
  have f1: "\<forall>hm. frame hm h \<longrightarrow> length hm \<le> pa \<longrightarrow> frame hm h1"
    unfolding h1_def by (simp add: frame_update)
  from Cons.IH [OF s1] f1 show ?case
    unfolding step by auto
qed

lemma collect_tag_prefixes_st_refines:
  assumes "metrics_in hm ras ms" and "frame hm h" and "length hm \<le> pa"
    and "obj_at the_string_set h pa = Some S"
  shows "\<exists>h'. collect_tag_prefixes_st ras pa h = (Returned (), h') \<and>
              obj_at the_string_set h' pa = Some (collect_tag_prefixes ms S)"
  using assms
proof (induction ras arbitrary: h ms S)
  case Nil
  then show ?case by (simp add: metrics_in_def)
next
  case (Cons ra ras)
  from Cons.prems(1) obtain m ms' where
    ms: "ms = m # ms'" and m: "metric_at hm ra = Some m" and rest: "metrics_in hm ras ms'"
    by (auto simp: metrics_in_def list_all2_Cons1)
  from metric_atD [OF metric_at_frame [OF Cons.prems(2) m]] obtain ta where
    rd: "obj_at the_metric_result h ra = Some (name m, dimension m, severity m, ta, active m)"
    and tg: "obj_at the_strings h ta = Some (tags m)"
    by blast
  from add_tag_prefixes_st_refines [OF Cons.prems(4), of "tags m"] obtain h1 where
    run: "add_tag_prefixes_st (tags m) pa h = (Returned (), h1)" and
    s1: "obj_at the_string_set h1 pa = Some (add_tag_prefixes (tags m) S)" and
    f1: "frame hm h1"
    using Cons.prems(2,3) by blast
  have step: "collect_tag_prefixes_st (ra # ras) pa h = collect_tag_prefixes_st ras pa h1"
    by (simp add: bind_read_Some [OF rd] bind_read_Some [OF tg] run bind_Returned)
  from Cons.IH [OF rest f1 Cons.prems(3) s1] show ?case
    unfolding step ms by simp
qed

lemma count_metrics_st_refines:
  assumes "metrics_in h ras ms"
  shows "count_metrics_st p ras st h = (Returned (count_metrics p ms st), h)"
  using assms
proof (induction ras arbitrary: ms st)
  case Nil
  then show ?case by (simp add: metrics_in_def)
next
  case (Cons ra ras)
  from Cons.prems obtain m ms' where
    ms: "ms = m # ms'" and m: "metric_at h ra = Some m" and rest: "metrics_in h ras ms'"
    by (auto simp: metrics_in_def list_all2_Cons1)
  from metric_atD [OF m] obtain ta where
    rd: "obj_at the_metric_result h ra = Some (name m, dimension m, severity m, ta, active m)"
    and tg: "obj_at the_strings h ta = Some (tags m)"
    by blast
  have step: "count_metrics_st p (ra # ras) st h =
      count_metrics_st p ras (count_tags p (active m) (tags m) st) h"
    by (simp add: bind_read_Some [OF rd] bind_read_Some [OF tg])
  show ?case
    unfolding step ms by (simp add: Cons.IH [OF rest])
qed

lemma count_active_st_refines:
  assumes "metrics_in h ras ms"
  shows "count_active_st ras (ac, ic) h =
           (Returned (ac + int (length (filter active ms)),
                      ic + int (length (filter (\<lambda>m. \<not> active m) ms))), h)"
  using assms
proof (induction ras arbitrary: ms ac ic)
  case Nil
  then show ?case by (simp add: metrics_in_def)
next
  case (Cons ra ras)
  from Cons.prems obtain m ms' where
    ms: "ms = m # ms'" and m: "metric_at h ra = Some m" and rest: "metrics_in h ras ms'"
    by (auto simp: metrics_in_def list_all2_Cons1)
  from metric_atD [OF m] obtain ta where
    rd: "obj_at the_metric_result h ra = Some (name m, dimension m, severity m, ta, active m)"
    by blast
  have step: "count_active_st (ra # ras) (ac, ic) h =
      count_active_st ras (if active m then ac + 1 else ac, if \<not> active m then ic + 1 else ic) h"
    by (simp add: bind_read_Some [OF rd])
  show ?case
    unfolding step ms by (simp add: Cons.IH [OF rest])
qed

lemma entries_in_Nil: "entries_in sel h [] []"
  by (simp add: entries_in_def)

lemma entries_in_append: "entries_in sel h es ps \<Longrightarrow> entries_in sel (h @ vs) es ps"
  unfolding entries_in_def by (erule list_all2_mono) (simp add: obj_at_append)

lemma entries_in_update:
  "entries_in sel h es ps \<Longrightarrow> sel (h ! b) = None \<Longrightarrow> entries_in sel (h[b := v]) es ps"
  unfolding entries_in_def by (erule list_all2_mono) (simp add: obj_at_update)

lemma entries_in_frame: "frame h0 h \<Longrightarrow> entries_in sel h0 es ps \<Longrightarrow> entries_in sel h es ps"
  unfolding entries_in_def by (erule list_all2_mono) (simp add: obj_at_frame)

lemma entries_in_AList_update:
  "entries_in sel h es ps \<Longrightarrow> obj_at sel h a = Some v \<Longrightarrow>
     entries_in sel h (AList.update k a es) (AList.update k v ps)"
  unfolding entries_in_def
  by (induction rule: list_all2_induct) auto

lemma the_dimension_dict_kind:
  assumes "obj_at the_dimension_dict h dd = Some dims"
  shows "the_accum (h ! dd) = None" "the_dimension_score (h ! dd) = None"
  using assms
  by (auto simp: obj_at_def the_dimension_dict_def the_accum_def the_dimension_score_def
      split: if_splits obj.splits)

lemma the_compliance_dict_kind:
  assumes "obj_at the_compliance_dict h ca = Some cd"
  shows "the_compliance_result (h ! ca) = None"
  using assms
  by (auto simp: obj_at_def the_compliance_dict_def the_compliance_result_def
      split: if_splits obj.splits)

lemma score_dimensions_st_refines:
  assumes "obj_at the_accum h da = Some acc" and "obj_at the_dimension_dict h dd = Some dims"
    and "entries_in the_dimension_score h dims dpure"
  shows "(\<forall>e. score_dimensions ds acc (dpure, oc, om) = Inl e \<longrightarrow>
            fst (score_dimensions_st ds da dd (oc, om) h) = Raised e) \<and>
         (\<forall>dpure' oc' om'. score_dimensions ds acc (dpure, oc, om) = Inr (dpure', oc', om') \<longrightarrow>
            (\<exists>h' dims'. score_dimensions_st ds da dd (oc, om) h = (Returned (oc', om'), h') \<and>
               obj_at the_dimension_dict h' dd = Some dims' \<and>
               entries_in the_dimension_score h' dims' dpure'))"
  using assms
proof (induction ds arbitrary: h dims dpure oc om)
  case Nil
  then show ?case by simp
next
  case (Cons d ds)
  show ?case
  proof (cases "map_of acc d")
    case None
    then have "score_dimensions_st (d # ds) da dd (oc, om) h = (Raised (KeyError d), h)"
      by (simp add: bind_read_Some [OF Cons.prems(1)])
    then show ?thesis
      using None by simp
  next
    case (Some cx)
    obtain c x where cx: "cx = (c, x)" by (cases cx)
    define e where
      "e = \<lparr>dim_name = d, current = c, maximum = x,
            score = (if x > 0 then (100 * c) div x else - 1)\<rparr>"
    define h1 where "h1 = h @ [DimensionScoreObj e]"
    define h2 where "h2 = h1[dd := DimensionDict (AList.update d (length h) dims)]"
    have dd1: "obj_at the_dimension_dict h1 dd = Some dims"
      unfolding h1_def using Cons.prems(2) by (rule obj_at_append)
    have dd_len: "dd < length h1"
      using dd1 by (rule obj_at_less)
    note kind = the_dimension_dict_kind [OF dd1]
    have step: "score_dimensions_st (d # ds) da dd (oc, om) h =
                score_dimensions_st ds da dd (oc + c, om + x) h2"
      using Some cx dd_len
      by (simp add: bind_read_Some [OF Cons.prems(1)] bind_new
          bind_read_Some [OF obj_at_append [OF Cons.prems(2)]] bind_store Let_def e_def h1_def h2_def)
    have pure: "score_dimensions (d # ds) acc (dpure, oc, om) =
                score_dimensions ds acc (AList.update d e dpure, oc + c, om + x)"
      using Some cx by (simp add: Let_def e_def)
    have p1: "obj_at the_accum h2 da = Some acc"
      unfolding h2_def using kind
      by (intro obj_at_update) (simp_all add: h1_def obj_at_append [OF Cons.prems(1)])
    have p2: "obj_at the_dimension_dict h2 dd = Some (AList.update d (length h) dims)"
      unfolding h2_def using dd_len by (simp add: obj_at_update_same the_dimension_dict_def)
    have "obj_at the_dimension_score h1 (length h) = Some e"
      by (simp add: h1_def obj_at_new the_dimension_score_def)
    then have "entries_in the_dimension_score h1 (AList.update d (length h) dims)
                 (AList.update d e dpure)"
      using entries_in_append [OF Cons.prems(3), of "[DimensionScoreObj e]"]
      by (intro entries_in_AList_update) (simp_all add: h1_def)
    then have p3: "entries_in the_dimension_score h2 (AList.update d (length h) dims)
                 (AList.update d e dpure)"
      unfolding h2_def using kind by (intro entries_in_update) simp_all
    from Cons.IH [OF p1 p2 p3] show ?thesis
      unfolding step pure .
  qed
qed

lemma build_compliance_st_refines:
  assumes "metrics_in hm ras ms" and "frame hm h" and "length hm \<le> ca"
    and "obj_at the_compliance_dict h ca = Some cd"
    and "entries_in the_compliance_result h cd cpure"
  shows "\<exists>h' cd'. build_compliance_st ps ras ca h = (Returned (), h') \<and>
           obj_at the_compliance_dict h' ca = Some cd' \<and>
           entries_in the_compliance_result h' cd' (build_compliance ps ms cpure)"
  using assms(2,4,5)
proof (induction ps arbitrary: h cd cpure)
  case Nil
  then show ?case by auto
next
  case (Cons p ps)
  have cnt: "count_metrics_st p ras (0, 0) h = (Returned (count_metrics p ms (0, 0)), h)"
    by (rule count_metrics_st_refines) (rule metrics_in_frame [OF Cons.prems(1) assms(1)])
  obtain tot cpl where tc: "count_metrics p ms (0, 0) = (tot, cpl)"
    by (cases "count_metrics p ms (0, 0)")
  show ?case
  proof (cases "tot > 0")
    case False
    have step: "build_compliance_st (p # ps) ras ca h = build_compliance_st ps ras ca h"
      using False by (simp add: cnt tc bind_Returned)
    have pure: "build_compliance (p # ps) ms cpure = build_compliance ps ms cpure"
      using False by (simp add: tc)
    from Cons.IH [OF Cons.prems] show ?thesis
      unfolding step pure .
  next
    case True
    define e where
      "e = \<lparr>tag = p, compliant = cpl, total = tot,
            percentage = (100 * of_int cpl) / of_int tot\<rparr>"
    define h1 where "h1 = h @ [ComplianceResultObj e]"
    define h2 where "h2 = h1[ca := ComplianceDict (AList.update p (length h) cd)]"
    have ca1: "obj_at the_compliance_dict h1 ca = Some cd"
      unfolding h1_def using Cons.prems(2) by (rule obj_at_append)
    have ca_len: "ca < length h1"
      using ca1 by (rule obj_at_less)
    note kind = the_compliance_dict_kind [OF ca1]
    have step: "build_compliance_st (p # ps) ras ca h = build_compliance_st ps ras ca h2"
      using True ca_len
      by (simp add: cnt tc bind_Returned bind_new bind_read_Some [OF obj_at_append [OF Cons.prems(2)]]
          bind_store e_def h1_def h2_def)
    have pure: "build_compliance (p # ps) ms cpure =
                build_compliance ps ms (AList.update p e cpure)"
      using True by (simp add: tc e_def)
    have f2: "frame hm h2"
      unfolding h2_def h1_def
      by (intro frame_update frame_append Cons.prems(1) assms(3))
    have p2: "obj_at the_compliance_dict h2 ca = Some (AList.update p (length h) cd)"
      unfolding h2_def using ca_len by (simp add: obj_at_update_same the_compliance_dict_def)
    have "obj_at the_compliance_result h1 (length h) = Some e"
      by (simp add: h1_def obj_at_new the_compliance_result_def)
    then have "entries_in the_compliance_result h1 (AList.update p (length h) cd)
                 (AList.update p e cpure)"
      using entries_in_append [OF Cons.prems(3), of "[ComplianceResultObj e]"]
      by (intro entries_in_AList_update) (simp_all add: h1_def)
    then have p3: "entries_in the_compliance_result h2 (AList.update p (length h) cd)
                 (AList.update p e cpure)"
      unfolding h2_def using kind by (intro entries_in_update) simp_all
    from Cons.IH [OF f2 p2 p3] show ?thesis
      unfolding step pure .
  qed
qed

lemma frame_of_post: "post h0 Q r \<Longrightarrow> frame h0 (snd r)"
  by (simp add: post_def)

lemma dimension_pass_st_refines:
  assumes "metrics_in h ras ms"
  shows "(\<forall>e. accumulate_dimensions ms init_dim_accum = Inl e \<longrightarrow>
            fst (dimension_pass_st ras h) = Raised e) \<and>
         (\<forall>acc e. accumulate_dimensions ms init_dim_accum = Inr acc \<and>
            score_dimensions DIMENSIONS acc ([], 0, 0) = Inl e \<longrightarrow>
            fst (dimension_pass_st ras h) = Raised e) \<and>
         (\<forall>acc dims oc om. accumulate_dimensions ms init_dim_accum = Inr acc \<and>
            score_dimensions DIMENSIONS acc ([], 0, 0) = Inr (dims, oc, om) \<longrightarrow>
            (\<exists>h' dd refs.
               dimension_pass_st ras h =
                 (Returned (dd, spec_overall oc om, of_int (spec_overall oc om) * 5 / 100), h') \<and>
               frame h h' \<and>
               obj_at the_dimension_dict h' dd = Some refs \<and>
               entries_in the_dimension_score h' refs dims))"
proof -
  define da where "da = length h"
  define h1 where "h1 = h @ [AccumDict init_dim_accum]"
  have f1: "frame h h1"
    unfolding h1_def by (rule frame_append [OF frame_refl])
  have l1: "length h \<le> da"
    by (simp add: da_def)
  have a1: "obj_at the_accum h1 da = Some init_dim_accum"
    by (simp add: h1_def da_def obj_at_new the_accum_def)
  note acc = accumulate_dimensions_st_refines [OF assms f1 l1 a1]
  have fr: "frame h (snd (dimension_pass_st ras h))"
    by (rule frame_of_post [OF post_dimension_pass_st [OF frame_refl]])
  have unfold: "dimension_pass_st ras h =
      bind (accumulate_dimensions_st ras da h1) (\<lambda>_ h.
      bind (new (DimensionDict []) h) (\<lambda>dd h.
      bind (score_dimensions_st DIMENSIONS da dd (0, 0) h)
        (\<lambda>(overall_current, overall_max) h.
       let ov = (if overall_max > 0 then (100 * overall_current) div overall_max else 0);
           st = (of_int ov * 5) / 100
       in (Returned (dd, ov, st), h))))" (is "_ = bind _ ?rest")
    by (simp add: dimension_pass_st_def bind_new h1_def da_def)
  show ?thesis
  proof (cases "accumulate_dimensions ms init_dim_accum")
    case (Inl e)
    then have "fst (accumulate_dimensions_st ras da h1) = Raised e"
      using acc by blast
    then have "fst (dimension_pass_st ras h) = Raised e"
      unfolding unfold by (rule fst_bind_Raised)
    then show ?thesis using Inl by simp
  next
    case (Inr acc')
    with acc obtain h2 where
      run2: "accumulate_dimensions_st ras da h1 = (Returned (), h2)" and
      a2: "obj_at the_accum h2 da = Some acc'" by blast
    define h3 where "h3 = h2 @ [DimensionDict []]"
    have a3: "obj_at the_accum h3 da = Some acc'"
      unfolding h3_def using a2 by (rule obj_at_append)
    have d3: "obj_at the_dimension_dict h3 (length h2) = Some []"
      by (simp add: h3_def obj_at_new the_dimension_dict_def)
    note sc = score_dimensions_st_refines [OF a3 d3 entries_in_Nil, of DIMENSIONS 0 0]
    have unfold2: "dimension_pass_st ras h =
      bind (score_dimensions_st DIMENSIONS da (length h2) (0, 0) h3)
        (\<lambda>(overall_current, overall_max) h.
       let ov = (if overall_max > 0 then (100 * overall_current) div overall_max else 0);
           st = (of_int ov * 5) / 100
       in (Returned (length h2, ov, st), h))"
      unfolding unfold by (simp add: run2 bind_Returned bind_new h3_def)
    show ?thesis
    proof (cases "score_dimensions DIMENSIONS acc' ([], 0, 0)")
      case (Inl e)
      then have "fst (score_dimensions_st DIMENSIONS da (length h2) (0, 0) h3) = Raised e"
        using sc by blast
      then have "fst (dimension_pass_st ras h) = Raised e"
        unfolding unfold2 by (rule fst_bind_Raised)
      then show ?thesis using Inl Inr by simp
    next
      case scr: (Inr res)
      obtain dims oc om where res: "res = (dims, oc, om)" by (cases res)
      from sc scr res obtain h4 refs where
        run4: "score_dimensions_st DIMENSIONS da (length h2) (0, 0) h3 =
                 (Returned (oc, om), h4)" and
        d4: "obj_at the_dimension_dict h4 (length h2) = Some refs" and
        e4: "entries_in the_dimension_score h4 refs dims" by blast
      have fin: "dimension_pass_st ras h =
          (Returned (length h2, spec_overall oc om, of_int (spec_overall oc om) * 5 / 100), h4)"
        unfolding unfold2 by (simp add: run4 bind_Returned Let_def spec_overall_def)
      have "frame h h4"
        using fr by (simp add: fin)
      with fin d4 e4 show ?thesis
        using Inr scr res by auto
    qed
  qed
qed

lemma compliance_pass_st_refines:
  assumes "metrics_in h ras ms"
  shows "\<exists>h' ca crefs.
           compliance_pass_st ras h = (Returned ca, h') \<and> frame h h' \<and>
           obj_at the_compliance_dict h' ca = Some crefs \<and>
           entries_in the_compliance_result h' crefs
             (build_compliance (sorted_list_of_set (collect_tag_prefixes ms {})) ms [])"
proof -
  define h1 where "h1 = h @ [StrSet {}]"
  have f1: "frame h h1"
    unfolding h1_def by (rule frame_append [OF frame_refl])
  have s1: "obj_at the_string_set h1 (length h) = Some {}"
    by (simp add: h1_def obj_at_new the_string_set_def)
  from collect_tag_prefixes_st_refines [OF assms f1 order_refl s1] obtain h2 where
    run2: "collect_tag_prefixes_st ras (length h) h1 = (Returned (), h2)" and
    s2: "obj_at the_string_set h2 (length h) = Some (collect_tag_prefixes ms {})" by blast
  have f2: "frame h h2"
    using frame_of_post [OF post_collect_tag_prefixes_st [OF f1 order_refl, where ras = ras]]
    by (simp add: run2)
  define ps where "ps = sorted_list_of_set (collect_tag_prefixes ms {})"
  define h3 where "h3 = h2 @ [ComplianceDict []]"
  define h4 where "h4 = h3 @ [StrList ps]"
  have s3: "obj_at the_string_set h3 (length h) = Some (collect_tag_prefixes ms {})"
    unfolding h3_def using s2 by (rule obj_at_append)
  have f4: "frame h h4"
    unfolding h4_def h3_def by (intro frame_append f2)
  have l4: "length h \<le> length h2"
    using f2 by (rule frame_length)
  have c4: "obj_at the_compliance_dict h4 (length h2) = Some []"
    unfolding h4_def
    by (rule obj_at_append) (simp add: h3_def obj_at_new the_compliance_dict_def)
  from build_compliance_st_refines [OF assms f4 l4 c4 entries_in_Nil, of ps]
  obtain h5 crefs where
    run5: "build_compliance_st ps ras (length h2) h4 = (Returned (), h5)" and
    c5: "obj_at the_compliance_dict h5 (length h2) = Some crefs" and
    e5: "entries_in the_compliance_result h5 crefs (build_compliance ps ms [])" by blast
  have fin: "compliance_pass_st ras h = (Returned (length h2), h5)"
    by (simp add: compliance_pass_st_def bind_new h1_def [symmetric] run2 bind_Returned
        h3_def [symmetric] bind_read_Some [OF s3] ps_def [symmetric] h4_def [symmetric] run5)
  have "frame h h5"
    using frame_of_post [OF post_compliance_pass_st [OF frame_refl, where ras = ras and h = h]]
    by (simp add: fin)
  with fin c5 e5 show ?thesis
    unfolding ps_def by blast
qed

lemma score_metrics_st_refines:
  assumes "obj_at the_refs h la = Some ras" and "metrics_in h ras ms"
  shows "(\<forall>e. accumulate_dimensions ms init_dim_accum = Inl e \<longrightarrow>
            fst (score_metrics_st plat la h) = Raised e) \<and>
         (\<forall>acc e. accumulate_dimensions ms init_dim_accum = Inr acc \<and>
            score_dimensions DIMENSIONS acc ([], 0, 0) = Inl e \<longrightarrow>
            fst (score_metrics_st plat la h) = Raised e) \<and>
         (\<forall>acc dims oc om. accumulate_dimensions ms init_dim_accum = Inr acc \<and>
            score_dimensions DIMENSIONS acc ([], 0, 0) = Inr (dims, oc, om) \<longrightarrow>
            (\<exists>a h'. score_metrics_st plat la h = (Returned a, h') \<and>
               result_in h' a
                 \<lparr>platform = plat, dimensions = dims, overall = spec_overall oc om,
                  stars = of_int (spec_overall oc om) * 5 / 100,
                  compliance =
                    build_compliance (sorted_list_of_set (collect_tag_prefixes ms {})) ms [],
                  metrics = ms, total_metrics = int (length ms),
                  active_threats = int (length (filter active ms)),
                  inactive_threats = int (length (filter (\<lambda>m. \<not> active m) ms))\<rparr>))"
proof -
  note dp = dimension_pass_st_refines [OF assms(2)]
  have unfold: "score_metrics_st plat la h =
      bind (dimension_pass_st ras h) (\<lambda>(dd, ov, st) h.
      bind (compliance_pass_st ras h) (\<lambda>ca h.
      bind (count_active_st ras (0, 0) h) (\<lambda>(active_count, inactive_count) h.
        new (ScoreResultObj plat dd ov st ca la (int (length ras))
               active_count inactive_count) h)))"
    by (simp add: score_metrics_st_def bind_read_Some [OF assms(1)])
  have raised: "fst (score_metrics_st plat la h) = Raised e"
    if "fst (dimension_pass_st ras h) = Raised e" for e
    unfolding unfold using that by (rule fst_bind_Raised)
  have len: "length ras = length ms"
    using assms(2) by (simp add: metrics_in_def list_all2_lengthD)
  have returned: "\<exists>a h'. score_metrics_st plat la h = (Returned a, h') \<and>
               result_in h' a
                 \<lparr>platform = plat, dimensions = dims, overall = spec_overall oc om,
                  stars = of_int (spec_overall oc om) * 5 / 100,
                  compliance =
                    build_compliance (sorted_list_of_set (collect_tag_prefixes ms {})) ms [],
                  metrics = ms, total_metrics = int (length ms),
                  active_threats = int (length (filter active ms)),
                  inactive_threats = int (length (filter (\<lambda>m. \<not> active m) ms))\<rparr>"
    if "accumulate_dimensions ms init_dim_accum = Inr acc"
      and "score_dimensions DIMENSIONS acc ([], 0, 0) = Inr (dims, oc, om)"
    for acc dims oc om
  proof -
    define ov where "ov = spec_overall oc om"
    define sts :: pyfloat where "sts = of_int ov * 5 / 100"
    define comp where
      "comp = build_compliance (sorted_list_of_set (collect_tag_prefixes ms {})) ms []"
    define ac where "ac = int (length (filter active ms))"
    define ic where "ic = int (length (filter (\<lambda>m. \<not> active m) ms))"
    from dp that obtain h1 dd refs where
      run1: "dimension_pass_st ras h = (Returned (dd, ov, sts), h1)" and
      f1: "frame h h1" and
      d1: "obj_at the_dimension_dict h1 dd = Some refs" and
      e1: "entries_in the_dimension_score h1 refs dims"
      unfolding ov_def sts_def by blast
    have m1: "metrics_in h1 ras ms"
      using f1 assms(2) by (rule metrics_in_frame)
    from compliance_pass_st_refines [OF m1] obtain h2 ca crefs where
      run2: "compliance_pass_st ras h1 = (Returned ca, h2)" and
      f2: "frame h1 h2" and
      c2: "obj_at the_compliance_dict h2 ca = Some crefs" and
      e2: "entries_in the_compliance_result h2 crefs comp"
      unfolding comp_def by blast
    have m2: "metrics_in h2 ras ms"
      using f2 m1 by (rule metrics_in_frame)
    have run3: "count_active_st ras (0, 0) h2 = (Returned (ac, ic), h2)"
      using count_active_st_refines [OF m2, of 0 0] by (simp add: ac_def ic_def)
    define v where "v = ScoreResultObj plat dd ov sts ca la (int (length ras)) ac ic"
    define h3 where "h3 = h2 @ [v]"
    have fin: "score_metrics_st plat la h = (Returned (length h2), h3)"
      unfolding unfold
      by (simp add: run1 run2 run3 bind_Returned new_def h3_def v_def)
    have la3: "obj_at the_refs h3 la = Some ras"
      unfolding h3_def
      by (intro obj_at_append obj_at_frame [OF f2] obj_at_frame [OF f1] assms(1))
    have d3: "obj_at the_dimension_dict h3 dd = Some refs"
      unfolding h3_def by (intro obj_at_append obj_at_frame [OF f2] d1)
    have e3: "entries_in the_dimension_score h3 refs dims"
      unfolding h3_def by (intro entries_in_append entries_in_frame [OF f2] e1)
    have c3: "obj_at the_compliance_dict h3 ca = Some crefs"
      unfolding h3_def by (intro obj_at_append c2)
    have ce3: "entries_in the_compliance_result h3 crefs comp"
      unfolding h3_def by (intro entries_in_append e2)
    have m3: "metrics_in h3 ras ms"
      unfolding h3_def by (intro metrics_in_append m2)
    have r3: "obj_at the_score_result h3 (length h2) =
        Some (plat, dd, ov, sts, ca, la, int (length ms), ac, ic)"
      by (simp add: h3_def obj_at_new v_def the_score_result_def len)
    have "result_in h3 (length h2)
            \<lparr>platform = plat, dimensions = dims, overall = ov, stars = sts,
             compliance = comp, metrics = ms, total_metrics = int (length ms),
             active_threats = ac, inactive_threats = ic\<rparr>"
      unfolding result_in_def using r3 d3 e3 c3 ce3 la3 m3 by auto
    with fin show ?thesis
      unfolding ov_def sts_def comp_def ac_def ic_def by blast
  qed
  show ?thesis
    using dp raised returned by blast
qed

lemma compute_score_st_refines:
  assumes "model_in h ta model" and "inactive_in h io iopt"
  shows "(\<forall>e. compute_score model iopt ai = Inl e \<longrightarrow>
            fst (compute_score_st ta io ai h) = Raised e) \<and>
         (\<forall>r. compute_score model iopt ai = Inr r \<longrightarrow>
            (\<exists>a h'. compute_score_st ta io ai h = (Returned a, h') \<and> result_in h' a r))"
proof -
  from assms(1) obtain nm ms where
    doc: "obj_at the_doc h ta = Some (nm, ms)" and nm: "tm_name model = nm" and
    mets: "case ms of
             None \<Rightarrow> tm_metrics model = None
           | Some rla \<Rightarrow>
               (\<exists>mas rs. obj_at the_refs h rla = Some mas \<and> raws_in h mas rs \<and>
                  tm_metrics model = Some rs)"
    unfolding model_in_def by blast
  define names where "names = inactive_or_empty iopt"
  define plat where "plat = get_name model"
  obtain ia vs1 where
    arg: "(case io of None \<Rightarrow> new (StrSet {}) h | Some ia \<Rightarrow> (Returned ia, h))
            = (Returned ia, h @ vs1)" and
    s1: "obj_at the_string_set (h @ vs1) ia = Some names"
  proof (cases io)
    case None
    then have "iopt = None" using assms(2) by (simp add: inactive_in_def)
    then have "obj_at the_string_set (h @ [StrSet {}]) (length h) = Some names"
      by (simp add: obj_at_new the_string_set_def names_def inactive_or_empty_def)
    with None that [of "length h" "[StrSet {}]"] show ?thesis
      by (simp add: new_def)
  next
    case (Some a)
    then obtain S where "obj_at the_string_set h a = Some S" "iopt = Some S"
      using assms(2) by (auto simp: inactive_in_def)
    then have "obj_at the_string_set (h @ []) a = Some names"
      by (simp add: names_def inactive_or_empty_def)
    with Some that [of a "[]"] show ?thesis by simp
  qed
  define h1 where "h1 = h @ vs1"
  have doc1: "obj_at the_doc h1 ta = Some (nm, ms)"
    unfolding h1_def using doc by (rule obj_at_append)
  obtain rla vs2 mas where
    get: "(case ms of None \<Rightarrow> new (RefList []) h1 | Some a \<Rightarrow> (Returned a, h1))
            = (Returned rla, h1 @ vs2)" and
    l2: "obj_at the_refs (h1 @ vs2) rla = Some mas" and
    r2: "raws_in (h1 @ vs2) mas (get_metrics model)"
  proof (cases ms)
    case None
    then have "get_metrics model = []"
      using mets by (simp add: get_metrics_def)
    then have "raws_in (h1 @ [RefList []]) [] (get_metrics model)"
      by (simp add: raws_in_def)
    moreover have "obj_at the_refs (h1 @ [RefList []]) (length h1) = Some []"
      by (simp add: obj_at_new the_refs_def)
    ultimately show ?thesis
      using None that [of "length h1" "[RefList []]" "[]"] by (simp add: new_def)
  next
    case (Some a)
    then obtain mas rs where
      "obj_at the_refs h a = Some mas" "raws_in h mas rs" "tm_metrics model = Some rs"
      using mets by auto
    then have "obj_at the_refs (h1 @ []) a = Some mas" "raws_in (h1 @ []) mas (get_metrics model)"
      by (simp_all add: h1_def obj_at_append raws_in_append get_metrics_def)
    with Some that [of a "[]" mas] show ?thesis by simp
  qed
  define h2 where "h2 = h1 @ vs2"
  define la where "la = length h2"
  define h3 where "h3 = h2 @ [RefList []]"
  have s3: "obj_at the_string_set h3 ia = Some names"
    unfolding h3_def h2_def h1_def by (intro obj_at_append s1)
  have r3: "raws_in h3 mas (get_metrics model)"
    unfolding h3_def h2_def by (intro raws_in_append r2)
  have la3: "obj_at the_refs h3 la = Some []"
    by (simp add: h3_def la_def obj_at_new the_refs_def)
  have m3: "metrics_in h3 [] []"
    by (simp add: metrics_in_def)
  note bm = build_metrics_st_refines [OF r3 s3 la3 m3, of ai]
  have unfold: "compute_score_st ta io ai h =
      bind (build_metrics_st mas ia ai la h3) (\<lambda>_ h. score_metrics_st plat la h)"
    unfolding compute_score_st_def arg
    apply (fold h1_def)
    apply (simp only: bind_Returned bind_read_Some [OF doc1] prod.case get)
    apply (fold h2_def)
    apply (simp only: bind_read_Some [OF l2 [folded h2_def]] bind_new Let_def)
    apply (fold la_def h3_def)
    apply (simp add: plat_def get_name_def nm)
    done
  show ?thesis
  proof (cases "build_metrics (get_metrics model) names ai []")
    case (Inl e)
    then have "fst (build_metrics_st mas ia ai la h3) = Raised e"
      using bm by blast
    then have "fst (compute_score_st ta io ai h) = Raised e"
      unfolding unfold by (rule fst_bind_Raised)
    moreover have "compute_score model iopt ai = Inl e"
      using Inl by (simp add: compute_score_def names_def)
    ultimately show ?thesis by simp
  next
    case (Inr mets)
    with bm obtain h4 ras where
      run4: "build_metrics_st mas ia ai la h3 = (Returned (), h4)" and
      la4: "obj_at the_refs h4 la = Some ras" and
      m4: "metrics_in h4 ras mets" by blast
    note sm = score_metrics_st_refines [OF la4 m4, of plat]
    have unfold2: "compute_score_st ta io ai h = score_metrics_st plat la h4"
      unfolding unfold by (simp add: run4 bind_Returned)
    show ?thesis
    proof (cases "accumulate_dimensions mets init_dim_accum")
      case (Inl e)
      then have "fst (compute_score_st ta io ai h) = Raised e"
        unfolding unfold2 using sm by blast
      moreover have "compute_score model iopt ai = Inl e"
        using Inl Inr by (simp add: compute_score_def names_def)
      ultimately show ?thesis by simp
    next
      case accr: (Inr acc)
      show ?thesis
      proof (cases "score_dimensions DIMENSIONS acc ([], 0, 0)")
        case (Inl e)
        then have "fst (compute_score_st ta io ai h) = Raised e"
          unfolding unfold2 using sm accr by blast
        moreover have "compute_score model iopt ai = Inl e"
          using Inl Inr accr by (simp add: compute_score_def names_def)
        ultimately show ?thesis by simp
      next
        case scr: (Inr res)
        obtain dims oc om where res: "res = (dims, oc, om)" by (cases res)
        from sm accr scr res obtain a h' where
          run: "score_metrics_st plat la h4 = (Returned a, h')" and
          rin: "result_in h' a
                 \<lparr>platform = plat, dimensions = dims, overall = spec_overall oc om,
                  stars = of_int (spec_overall oc om) * 5 / 100,
                  compliance =
                    build_compliance (sorted_list_of_set (collect_tag_prefixes mets {})) mets [],
                  metrics = mets, total_metrics = int (length mets),
                  active_threats = int (length (filter active mets)),
                  inactive_threats = int (length (filter (\<lambda>m. \<not> active m) mets))\<rparr>"
          by blast
        have "compute_score model iopt ai =
            Inr \<lparr>platform = plat, dimensions = dims, overall = spec_overall oc om,
                  stars = of_int (spec_overall oc om) * 5 / 100,
                  compliance =
                    build_compliance (sorted_list_of_set (collect_tag_prefixes mets {})) mets [],
                  metrics = mets, total_metrics = int (length mets),
                  active_threats = int (length (filter active mets)),
                  inactive_threats = int (length (filter (\<lambda>m. \<not> active m) mets))\<rparr>"
          using Inr accr scr res
          by (simp add: compute_score_def names_def plat_def Let_def spec_overall_def)
        with run rin show ?thesis
          unfolding unfold2 by auto
      qed
    qed
  qed
qed

text \<open>An instance: the test heap holds a document, and the run on it reads back as its score.\<close>

lemma heap_integer_division_holds_model:
  "model_in heap_integer_division 4 model_of_heap_integer_division \<and>
   inactive_in heap_integer_division (Some 5) (Some {''t1''})"
proof -
  have d: "obj_at the_doc heap_integer_division 4 = Some (Some ''test model'', Some 3)"
    by (simp add: obj_at_def heap_integer_division_def the_doc_def)
  have l: "obj_at the_refs heap_integer_division 3 = Some [1, 2]"
    by (simp add: obj_at_def heap_integer_division_def the_refs_def)
  have r1: "raw_at heap_integer_division 1 = Some (make_metric ''t1'' ''network'' 3 [''CIS,A''])"
    by (simp add: raw_at_def obj_at_def heap_integer_division_def the_metric_dict_def
        the_strings_def make_metric_def)
  have r2: "raw_at heap_integer_division 2 =
      Some \<lparr>raw_name = Some ''t2'', raw_dimension = Some ''network'', raw_severity = Some 4,
            raw_tags = None\<rparr>"
    by (simp add: raw_at_def obj_at_def heap_integer_division_def the_metric_dict_def)
  have rs: "raws_in heap_integer_division [1, 2]
      [make_metric ''t1'' ''network'' 3 [''CIS,A''],
       \<lparr>raw_name = Some ''t2'', raw_dimension = Some ''network'', raw_severity = Some 4,
        raw_tags = None\<rparr>]"
    using r1 r2 by (simp add: raws_in_def)
  have m: "model_in heap_integer_division 4 model_of_heap_integer_division"
    unfolding model_in_def
    by (rule exI [of _ "Some ''test model''"], rule exI [of _ "Some 3"])
      (use d l rs in \<open>auto simp: model_of_heap_integer_division_def make_threat_model_def\<close>)
  have i: "inactive_in heap_integer_division (Some 5) (Some {''t1''})"
    by (simp add: inactive_in_def obj_at_def heap_integer_division_def the_string_set_def)
  from m i show ?thesis ..
qed

lemma heap_integer_division_refined:
  "\<exists>r. compute_score model_of_heap_integer_division (Some {''t1''}) False = Inr r \<and>
       result_in heap_after_integer_division 21 r \<and> overall r = 42"
proof -
  have run: "compute_score_st 4 (Some 5) False heap_integer_division =
     (Returned 21, heap_after_integer_division)"
    by code_simp
  have "map_sum id overall (compute_score model_of_heap_integer_division (Some {''t1''}) False)
          = Inr 42"
    by code_simp
  then obtain r where
    r: "compute_score model_of_heap_integer_division (Some {''t1''}) False = Inr r" and
    o: "overall r = 42"
    by (cases "compute_score model_of_heap_integer_division (Some {''t1''}) False") auto
  from heap_integer_division_holds_model compute_score_st_refines [of heap_integer_division 4
      model_of_heap_integer_division "Some 5" "Some {''t1''}" False] r
  have "result_in heap_after_integer_division 21 r"
    by (auto simp: run)
  with r o show ?thesis by blast
qed

section \<open>The claims\<close>

text \<open>
  Claim C1. In a result of \<open>compute_score\<close>, the returned metrics are, in order and one for
  one, the records of the document's metric list: each carries its record's name, dimension,
  severity and tags, and is active exactly when neither \<open>all_inactive\<close> holds nor its name is in
  the inactive set. Each of the five fixed dimensions has an entry
  whose \<open>current\<close> is the sum of the severities of the inactive metrics of that dimension,
  whose \<open>maximum\<close> is the sum of all severities of that dimension, both over the returned
  metrics and, equally, over the records of the document, and whose \<open>score\<close> is
  \<open>floor (100 * current / maximum)\<close> when \<open>maximum > 0\<close> and \<open>-1\<close> when \<open>maximum = 0\<close>.
  The witness is the document with severities \<open>3\<close> and \<open>4\<close> in one dimension, the first
  inactive: \<open>current = 3\<close>, \<open>maximum = 7\<close>, \<open>score = 42\<close>.
\<close>

theorem dimension_score_floor:
  assumes "compute_score model io ai = Inr r" and "d \<in> set DIMENSIONS"
  shows "list_all2 (built_from (inactive_or_empty io) ai) (get_metrics model) (metrics r) \<and>
         map name (metrics r) = map (the \<circ> raw_name) (get_metrics model) \<and>
         map dimension (metrics r) = map (the \<circ> raw_dimension) (get_metrics model) \<and>
         map severity (metrics r) = map (the \<circ> raw_severity) (get_metrics model) \<and>
         (\<forall>m \<in> set (metrics r). active m = (\<not> (ai \<or> name m \<in> inactive_or_empty io))) \<and>
         (\<exists>ds. map_of (dimensions r) d = Some ds \<and>
           current ds = spec_current d (metrics r) \<and>
           maximum ds = spec_maximum d (metrics r) \<and>
           current ds = doc_current d (inactive_or_empty io) ai (get_metrics model) \<and>
           maximum ds = doc_maximum d (get_metrics model) \<and>
           (maximum ds > 0 \<longrightarrow> score ds = (100 * current ds) div maximum ds) \<and>
           (maximum ds = 0 \<longrightarrow> score ds = - 1))"
proof -
  from compute_score_Inr [OF assms(1)] obtain ms where
    r: "r = closed_result (get_name model) ms" by blast
  have m: "metrics r = ms" by (simp add: r closed_result_def)
  note t = compute_score_built_from [OF assms(1)]
  note e = built_from_sums [OF t, of d]
  have "map_of (dimensions r) d = Some (snd (dim_entry ms d))"
    unfolding r using assms(2) by (rule closed_dimension_lookup)
  then have "\<exists>ds. map_of (dimensions r) d = Some ds \<and>
           current ds = spec_current d (metrics r) \<and>
           maximum ds = spec_maximum d (metrics r) \<and>
           current ds = doc_current d (inactive_or_empty io) ai (get_metrics model) \<and>
           maximum ds = doc_maximum d (get_metrics model) \<and>
           (maximum ds > 0 \<longrightarrow> score ds = (100 * current ds) div maximum ds) \<and>
           (maximum ds = 0 \<longrightarrow> score ds = - 1)"
    using e by (simp add: m dim_entry_def spec_score_def)
  moreover have "map name (metrics r) = map (the \<circ> raw_name) (get_metrics model)"
    using t by (induction rule: list_all2_induct) (simp_all add: built_from_def)
  moreover have "map dimension (metrics r) = map (the \<circ> raw_dimension) (get_metrics model)"
    using t by (induction rule: list_all2_induct) (simp_all add: built_from_def)
  moreover have "map severity (metrics r) = map (the \<circ> raw_severity) (get_metrics model)"
    using t by (induction rule: list_all2_induct) (simp_all add: built_from_def)
  ultimately show ?thesis
    using t compute_score_active [OF assms(1)] by blast
qed



theorem dimension_score_floor_witness:
  "compute_score model_integer_division (Some {''t1''}) False = Inr result_integer_division \<and>
   ''network'' \<in> set DIMENSIONS \<and>
   get_metrics model_integer_division =
     [make_metric ''t1'' ''network'' 3 [], make_metric ''t2'' ''network'' 4 []] \<and>
   doc_current ''network'' {''t1''} False (get_metrics model_integer_division) = 3 \<and>
   doc_maximum ''network'' (get_metrics model_integer_division) = 7 \<and>
   map severity (metrics result_integer_division) = [3, 4] \<and>
   (\<exists>ds. map_of (dimensions result_integer_division) ''network'' = Some ds \<and>
      current ds = 3 \<and> maximum ds = 7 \<and> 0 < maximum ds \<and> score ds = 42)"
proof -
  have h: "compute_score model_integer_division (Some {''t1''}) False = Inr result_integer_division"
    by code_simp
  have d: "''network'' \<in> set DIMENSIONS"
    by (simp add: DIMENSIONS_def)
  have g: "get_metrics model_integer_division =
             [make_metric ''t1'' ''network'' 3 [], make_metric ''t2'' ''network'' 4 []]"
    by (simp add: get_metrics_def model_integer_division_def make_threat_model_def)
  have i: "inactive_or_empty (Some {''t1''}) = {''t1''}"
    by (simp add: inactive_or_empty_def)
  have c: "doc_current ''network'' {''t1''} False (get_metrics model_integer_division) = 3"
    by (simp add: g doc_current_def raw_inactive_def severity_of_def make_metric_def)
  have m: "doc_maximum ''network'' (get_metrics model_integer_division) = 7"
    by (simp add: g doc_maximum_def severity_of_def make_metric_def)
  have s: "map (the \<circ> raw_severity) (get_metrics model_integer_division) = [3, 4]"
    by (simp add: g make_metric_def)
  note t = dimension_score_floor [OF h d]
  from t have "map severity (metrics result_integer_division) =
                 map (the \<circ> raw_severity) (get_metrics model_integer_division)"
    by (elim conjE)
  then have v: "map severity (metrics result_integer_division) = [3, 4]"
    by (simp only: s)
  from t have "\<exists>ds. map_of (dimensions result_integer_division) ''network'' = Some ds \<and>
      current ds = spec_current ''network'' (metrics result_integer_division) \<and>
      maximum ds = spec_maximum ''network'' (metrics result_integer_division) \<and>
      current ds =
        doc_current ''network'' (inactive_or_empty (Some {''t1''})) False
          (get_metrics model_integer_division) \<and>
      maximum ds = doc_maximum ''network'' (get_metrics model_integer_division) \<and>
      (maximum ds > 0 \<longrightarrow> score ds = (100 * current ds) div maximum ds) \<and>
      (maximum ds = 0 \<longrightarrow> score ds = - 1)"
    by (elim conjE)
  then obtain ds where
    l: "map_of (dimensions result_integer_division) ''network'' = Some ds" and
    dc: "current ds =
           doc_current ''network'' (inactive_or_empty (Some {''t1''})) False
             (get_metrics model_integer_division)" and
    dm: "maximum ds = doc_maximum ''network'' (get_metrics model_integer_division)" and
    sc: "maximum ds > 0 \<longrightarrow> score ds = (100 * current ds) div maximum ds"
    by blast
  from dc have c3: "current ds = 3" by (simp only: i c)
  from dm have m7: "maximum ds = 7" by (simp only: m)
  from sc have "score ds = 42" by (simp add: c3 m7)
  with l c3 m7 have "map_of (dimensions result_integer_division) ''network'' = Some ds \<and>
      current ds = 3 \<and> maximum ds = 7 \<and> 0 < maximum ds \<and> score ds = 42"
    by simp
  then have "\<exists>ds. map_of (dimensions result_integer_division) ''network'' = Some ds \<and>
      current ds = 3 \<and> maximum ds = 7 \<and> 0 < maximum ds \<and> score ds = 42" ..
  with h d g c m v show ?thesis by (intro conjI)
qed

text \<open>
  Claim C2. In a result of \<open>compute_score\<close>, the \<open>dimensions\<close> dict has exactly the five fixed
  keys, \<open>overall\<close> is \<open>floor (100 * overall_current / overall_max)\<close> over the sums of the five
  entries' \<open>current\<close> and \<open>maximum\<close> when \<open>overall_max > 0\<close> and \<open>0\<close> otherwise, and
  \<open>stars\<close> is \<open>overall * 5 / 100\<close>. With severities that are not negative \<open>overall_max\<close> is not
  negative, so that the second case is \<open>overall_max = 0\<close>.
\<close>

theorem overall_and_stars:
  assumes "compute_score model io ai = Inr r"
  shows "map fst (dimensions r) = DIMENSIONS \<and>
         overall r =
           (if sum_list (map (maximum \<circ> snd) (dimensions r)) > 0
            then (100 * sum_list (map (current \<circ> snd) (dimensions r)))
                   div sum_list (map (maximum \<circ> snd) (dimensions r))
            else 0) \<and>
         ((\<forall>m \<in> set (metrics r). 0 \<le> severity m) \<longrightarrow>
            0 \<le> sum_list (map (maximum \<circ> snd) (dimensions r))) \<and>
         stars r = of_int (overall r) * 5 / 100"
proof -
  from compute_score_Inr [OF assms] obtain ms where
    r: "r = closed_result (get_name model) ms" by blast
  have m: "metrics r = ms" by (simp add: r closed_result_def)
  have o: "overall r = spec_overall (overall_current_of ms) (overall_max_of ms)"
    and s: "stars r = of_int (overall r) * 5 / 100"
    by (simp_all add: r closed_result_def)
  have n: "(\<forall>m \<in> set (metrics r). 0 \<le> severity m) \<longrightarrow> 0 \<le> overall_max_of ms"
    unfolding m by (blast intro: overall_max_nonneg)
  show ?thesis
    using o s n
    by (simp add: r closed_dimension_keys closed_current_sum closed_maximum_sum spec_overall_def)
qed

theorem overall_and_stars_witness:
  "compute_score model_integer_division (Some {''t1''}) False = Inr result_integer_division \<and>
   sum_list (map (current \<circ> snd) (dimensions result_integer_division)) = 3 \<and>
   sum_list (map (maximum \<circ> snd) (dimensions result_integer_division)) = 7 \<and>
   overall result_integer_division = 42 \<and>
   stars result_integer_division = 21 / 10"
proof -
  have h: "compute_score model_integer_division (Some {''t1''}) False = Inr result_integer_division"
    by code_simp
  have c: "sum_list (map (current \<circ> snd) (dimensions result_integer_division)) = 3"
    by (simp add: result_integer_division_def empty_dimension_def)
  have m: "sum_list (map (maximum \<circ> snd) (dimensions result_integer_division)) = 7"
    by (simp add: result_integer_division_def empty_dimension_def)
  from overall_and_stars [OF h] have
    "overall result_integer_division = 42 \<and> stars result_integer_division = 21 / 10"
    unfolding c m by simp
  with h c m show ?thesis by blast
qed

text \<open>
  Claim C3, amended. On a document that holds a metric whose dimension string is not one of the
  five fixed labels, \<open>compute_score\<close> does not complete: it raises \<open>KeyError\<close> and returns no
  result. When every metric record carries \<open>name\<close>, \<open>dimension\<close> and \<open>severity\<close>, the error
  carries the dimension string of the first such metric. The claim as stated, that the metric
  is silently left out of the aggregation, fails: the accumulator is a plain dict over the
  five labels and is indexed with the metric's dimension.
\<close>

theorem unknown_dimension_raises:
  assumes "m \<in> set (get_metrics model)" and "unknown_dimension m"
  shows "(\<exists>k. compute_score model io ai = Inl (KeyError k)) \<and>
         ((\<forall>m' \<in> set (get_metrics model). has_required_keys m') \<longrightarrow>
            (\<exists>m0 d0. List.find unknown_dimension (get_metrics model) = Some m0 \<and>
               raw_dimension m0 = Some d0 \<and> d0 \<notin> set DIMENSIONS \<and>
               compute_score model io ai = Inl (KeyError d0)))"
proof -
  from find_exists [of m "get_metrics model" unknown_dimension, OF assms] obtain r0 where
    f: "List.find unknown_dimension (get_metrics model) = Some r0" by blast
  have second: "\<exists>m0 d0. List.find unknown_dimension (get_metrics model) = Some m0 \<and>
               raw_dimension m0 = Some d0 \<and> d0 \<notin> set DIMENSIONS \<and>
               compute_score model io ai = Inl (KeyError d0)"
    if "\<forall>m' \<in> set (get_metrics model). has_required_keys m'"
    using compute_score_first_unknown [OF that f] f by blast
  have first: "\<exists>k. compute_score model io ai = Inl (KeyError k)"
  proof (cases "\<forall>m' \<in> set (get_metrics model). has_required_keys m'")
    case True
    from second [OF True] show ?thesis by blast
  next
    case False
    then obtain m' where "m' \<in> set (get_metrics model)" "\<not> has_required_keys m'" by blast
    from find_exists [of m' "get_metrics model" "\<lambda>m. \<not> has_required_keys m", OF this]
    obtain m0 where "List.find (\<lambda>m. \<not> has_required_keys m) (get_metrics model) = Some m0" ..
    from compute_score_missing_key [OF this] show ?thesis by blast
  qed
  from first second show ?thesis by blast
qed

theorem unknown_dimension_raises_witness:
  "make_metric ''odd1'' ''physical'' 2 [] \<in> set (get_metrics model_unknown_dimension) \<and>
   unknown_dimension (make_metric ''odd1'' ''physical'' 2 []) \<and>
   has_required_keys (make_metric ''net1'' ''network'' 4 []) \<and>
   has_required_keys (make_metric ''odd1'' ''physical'' 2 []) \<and>
   List.find unknown_dimension (get_metrics model_unknown_dimension) =
     Some (make_metric ''odd1'' ''physical'' 2 []) \<and>
   compute_score model_unknown_dimension None False = Inl (KeyError ''physical'')"
proof -
  have g: "get_metrics model_unknown_dimension =
      [make_metric ''net1'' ''network'' 4 [], make_metric ''odd1'' ''physical'' 2 []]"
    by (simp add: model_unknown_dimension_def make_threat_model_def get_metrics_def)
  have m: "make_metric ''odd1'' ''physical'' 2 [] \<in> set (get_metrics model_unknown_dimension)"
    by (simp add: g)
  have u: "unknown_dimension (make_metric ''odd1'' ''physical'' 2 [])"
    by (simp add: unknown_dimension_def make_metric_def DIMENSIONS_def)
  have k: "has_required_keys (make_metric ''net1'' ''network'' 4 [])"
    "has_required_keys (make_metric ''odd1'' ''physical'' 2 [])"
    by (simp_all add: has_required_keys_def make_metric_def)
  then have all: "\<forall>m' \<in> set (get_metrics model_unknown_dimension). has_required_keys m'"
    by (simp add: g)
  have f: "List.find unknown_dimension (get_metrics model_unknown_dimension) =
     Some (make_metric ''odd1'' ''physical'' 2 [])"
    by (simp add: g unknown_dimension_def make_metric_def DIMENSIONS_def)
  from unknown_dimension_raises [OF m u, of None False] all obtain m0 d0 where
    f0: "List.find unknown_dimension (get_metrics model_unknown_dimension) = Some m0" and
    d0: "raw_dimension m0 = Some d0" and
    c0: "compute_score model_unknown_dimension None False = Inl (KeyError d0)"
    by blast
  have "m0 = make_metric ''odd1'' ''physical'' 2 []"
    using f f0 by simp
  then have "d0 = ''physical''"
    using d0 by (simp add: make_metric_def)
  then have "compute_score model_unknown_dimension None False = Inl (KeyError ''physical'')"
    using c0 by simp
  with m u k f show ?thesis by blast
qed

theorem unknown_dimension_counterexample:
  "compute_score model_unknown_dimension None False = Inl (KeyError ''physical'')"
  by code_simp

text \<open>
  Claim C4, amended. With \<open>all_inactive = True\<close>, in a result of \<open>compute_score\<close> every dimension
  with \<open>maximum > 0\<close> has score \<open>100\<close> and \<open>active_threats = 0\<close>; \<open>overall = 100\<close> and
  \<open>stars = 5\<close> hold when the five maxima sum to more than \<open>0\<close>, and \<open>overall = 0\<close>,
  \<open>stars = 0\<close> otherwise. The claim as stated, \<open>overall = 100\<close> for every document, fails on the
  empty metric list, where \<open>overall\<close> is \<open>0\<close>.
\<close>

theorem all_inactive_best_case:
  assumes "compute_score model io True = Inr r"
  shows "(\<forall>d ds. map_of (dimensions r) d = Some ds \<and> 0 < maximum ds \<longrightarrow> score ds = 100) \<and>
         active_threats r = 0 \<and>
         (0 < sum_list (map (maximum \<circ> snd) (dimensions r)) \<longrightarrow>
            overall r = 100 \<and> stars r = 5) \<and>
         (sum_list (map (maximum \<circ> snd) (dimensions r)) \<le> 0 \<longrightarrow>
            overall r = 0 \<and> stars r = 0)"
proof -
  from compute_score_Inr [OF assms] obtain ms where
    b: "build_metrics (get_metrics model) (inactive_or_empty io) True [] = Inr ms" and
    r: "r = closed_result (get_name model) ms" by blast
  have ina: "\<forall>m \<in> set ms. \<not> active m"
    using b by (rule build_metrics_all_inactive)
  have dims: "\<forall>d ds. map_of (dimensions r) d = Some ds \<and> 0 < maximum ds \<longrightarrow> score ds = 100"
  proof (intro allI impI)
    fix d ds
    assume a: "map_of (dimensions r) d = Some ds \<and> 0 < maximum ds"
    then have ds: "ds = snd (dim_entry ms d)"
      unfolding r by (blast dest: closed_dimension_lookup_Some)
    have pos: "0 < spec_maximum d ms"
      using a by (simp add: ds dim_entry_def)
    have "score ds = (100 * spec_maximum d ms) div spec_maximum d ms"
      using pos by (simp add: ds dim_entry_def spec_score_def spec_current_all_inactive [OF ina])
    also have "\<dots> = 100"
      using pos by simp
    finally show "score ds = 100" .
  qed
  have act: "active_threats r = 0"
    by (simp add: r closed_result_def filter_active_all_inactive [OF ina])
  have om: "sum_list (map (maximum \<circ> snd) (dimensions r)) = overall_max_of ms"
    unfolding r by (rule closed_maximum_sum)
  have o: "overall r = spec_overall (overall_max_of ms) (overall_max_of ms)"
    by (simp add: r closed_result_def overall_current_all_inactive [OF ina])
  have s: "stars r = of_int (overall r) * 5 / 100"
    by (simp add: r closed_result_def)
  have hi: "0 < overall_max_of ms \<longrightarrow> overall r = 100 \<and> stars r = 5"
  proof
    assume pos: "0 < overall_max_of ms"
    then have "overall r = (100 * overall_max_of ms) div overall_max_of ms"
      using o by (simp add: spec_overall_def)
    also have "\<dots> = 100"
      using pos by simp
    finally have o100: "overall r = 100" .
    then show "overall r = 100 \<and> stars r = 5"
      using s by simp
  qed
  have lo: "overall_max_of ms \<le> 0 \<longrightarrow> overall r = 0 \<and> stars r = 0"
  proof
    assume "overall_max_of ms \<le> 0"
    then have "overall r = 0"
      using o by (simp add: spec_overall_def)
    then show "overall r = 0 \<and> stars r = 0"
      using s by simp
  qed
  from dims act hi lo show ?thesis
    unfolding om by blast
qed

theorem all_inactive_best_case_witness:
  "compute_score model_all_inactive None True = Inr result_all_inactive \<and>
   map_of (dimensions result_all_inactive) ''network'' =
     Some \<lparr>dim_name = ''network'', current = 8, maximum = 8, score = 100\<rparr> \<and>
   sum_list (map (maximum \<circ> snd) (dimensions result_all_inactive)) = 8 \<and>
   active_threats result_all_inactive = 0 \<and>
   overall result_all_inactive = 100 \<and> stars result_all_inactive = 5 \<and>
   compute_score model_empty None True = Inr result_empty \<and>
   sum_list (map (maximum \<circ> snd) (dimensions result_empty)) = 0 \<and>
   overall result_empty = 0 \<and> stars result_empty = 0"
proof -
  have h: "compute_score model_all_inactive None True = Inr result_all_inactive"
    by code_simp
  have n: "map_of (dimensions result_all_inactive) ''network'' =
     Some \<lparr>dim_name = ''network'', current = 8, maximum = 8, score = 100\<rparr>"
    by (simp add: result_all_inactive_def)
  have m: "sum_list (map (maximum \<circ> snd) (dimensions result_all_inactive)) = 8"
    by (simp add: result_all_inactive_def empty_dimension_def)
  have e: "compute_score model_empty None True = Inr result_empty"
    by code_simp
  have z: "sum_list (map (maximum \<circ> snd) (dimensions result_empty)) = 0"
    by (simp add: result_empty_def empty_dimension_def)
  from all_inactive_best_case [OF h] have
    "active_threats result_all_inactive = 0 \<and>
     overall result_all_inactive = 100 \<and> stars result_all_inactive = 5"
    unfolding m by simp
  moreover from all_inactive_best_case [OF e] have
    "overall result_empty = 0 \<and> stars result_empty = 0"
    unfolding z by simp
  ultimately show ?thesis
    using h n m e z by blast
qed

theorem all_inactive_empty_counterexample:
  "compute_score model_empty None True = Inr result_empty \<and>
   overall result_empty = 0 \<and> overall result_empty \<noteq> 100 \<and>
   stars result_empty = 0 \<and> stars result_empty \<noteq> 5"
proof -
  have e: "compute_score model_empty None True = Inr result_empty"
    by code_simp
  have "overall result_empty = 0" "stars result_empty = 0"
    by (simp_all add: result_empty_def)
  with e show ?thesis by simp
qed

text \<open>
  Claim C5. A document whose metric list is empty is not an error: \<open>compute_score\<close> returns a
  result with \<open>overall = 0\<close>, \<open>stars = 0\<close>, score \<open>-1\<close> in each of the five dimensions and an
  empty compliance dict.
\<close>

theorem empty_metric_list:
  assumes "get_metrics model = []"
  shows "\<exists>r. compute_score model io ai = Inr r \<and>
           overall r = 0 \<and> stars r = 0 \<and>
           map fst (dimensions r) = DIMENSIONS \<and>
           (\<forall>d \<in> set DIMENSIONS. \<exists>ds. map_of (dimensions r) d = Some ds \<and> score ds = - 1) \<and>
           compliance r = [] \<and> metrics r = []"
proof -
  have b: "build_metrics (get_metrics model) (inactive_or_empty io) ai [] = Inr []"
    using assms by simp
  have c: "compute_score model io ai = Inr (closed_result (get_name model) [])"
    by (rule compute_score_known [OF b]) simp
  have z: "overall_current_of [] = 0" "overall_max_of [] = 0"
    by (simp_all add: overall_current_of_def overall_max_of_def)
  have p: "spec_prefixes [] = {}"
    by (simp add: spec_prefixes_def metric_tag_pairs_def)
  have 1: "overall (closed_result (get_name model) []) = 0"
    by (simp add: closed_result_def z spec_overall_def)
  have 2: "stars (closed_result (get_name model) []) = 0"
    by (simp add: closed_result_def z spec_overall_def)
  have 3: "\<forall>d \<in> set DIMENSIONS. \<exists>ds.
             map_of (dimensions (closed_result (get_name model) [])) d = Some ds \<and> score ds = - 1"
    by (simp add: closed_dimension_lookup dim_entry_def spec_score_def)
  have 4: "compliance (closed_result (get_name model) []) = []"
    by (simp add: closed_result_def p)
  have 5: "metrics (closed_result (get_name model) []) = []"
    by (simp add: closed_result_def)
  from c 1 2 3 4 5 closed_dimension_keys show ?thesis by blast
qed

theorem empty_metric_list_witness:
  "get_metrics model_empty = [] \<and>
   (\<exists>r. compute_score model_empty None False = Inr r \<and> overall r = 0 \<and> stars r = 0 \<and>
      map fst (dimensions r) = DIMENSIONS \<and>
      (\<forall>d \<in> set DIMENSIONS. \<exists>ds. map_of (dimensions r) d = Some ds \<and> score ds = - 1) \<and>
      compliance r = [] \<and> metrics r = [])"
proof -
  have h: "get_metrics model_empty = []"
    by (simp add: model_empty_def make_threat_model_def get_metrics_def)
  from empty_metric_list [OF h, of None False] h show ?thesis by blast
qed

text \<open>
  Claim C6. In a result of \<open>compute_score\<close>, the compliance dict has an entry for a string
  \<open>p\<close> exactly when \<open>p\<close> is the prefix of some tag of some metric (the part before the
  first comma, or the whole tag) and its \<open>total\<close> is positive; \<open>total\<close> counts the
  metric--tag pairs whose tag starts with \<open>p\<close>, \<open>compliant\<close> those among them whose metric
  is inactive, and \<open>percentage\<close> is \<open>100 * compliant / total\<close>, not floored. The witness has
  \<open>compliant = 1\<close>, \<open>total = 2\<close> and \<open>percentage = 50\<close>.
\<close>

theorem compliance_entries:
  assumes "compute_score model io ai = Inr r"
  shows "(map_of (compliance r) p = Some c) =
           (p \<in> spec_prefixes (metrics r) \<and> 0 < spec_total p (metrics r) \<and>
            c = \<lparr>tag = p, compliant = spec_compliant p (metrics r),
                  total = spec_total p (metrics r),
                  percentage = (100 * of_int (spec_compliant p (metrics r)))
                                 / of_int (spec_total p (metrics r))\<rparr>)"
proof -
  from compute_score_Inr [OF assms] obtain ms where
    r: "r = closed_result (get_name model) ms" by blast
  have m: "metrics r = ms" by (simp add: r closed_result_def)
  show ?thesis
    unfolding m unfolding r closed_compliance_lookup
    by (auto simp: compliance_entry_def)
qed

theorem compliance_entries_witness:
  "compute_score model_partial_compliance (Some {''t1''}) False = Inr result_partial_compliance \<and>
   spec_compliant ''CIS Benchmark Level 1'' (metrics result_partial_compliance) = 1 \<and>
   spec_total ''CIS Benchmark Level 1'' (metrics result_partial_compliance) = 2 \<and>
   ''CIS Benchmark Level 1'' \<in> spec_prefixes (metrics result_partial_compliance) \<and>
   map_of (compliance result_partial_compliance) ''CIS Benchmark Level 1'' =
     Some \<lparr>tag = ''CIS Benchmark Level 1'', compliant = 1, total = 2, percentage = 50\<rparr>"
proof -
  have h: "compute_score model_partial_compliance (Some {''t1''}) False
             = Inr result_partial_compliance"
    by code_simp
  have c: "spec_compliant ''CIS Benchmark Level 1'' (metrics result_partial_compliance) = 1"
    by (simp add: spec_compliant_def metric_tag_pairs_def result_partial_compliance_def)
  have t: "spec_total ''CIS Benchmark Level 1'' (metrics result_partial_compliance) = 2"
    by (simp add: spec_total_def metric_tag_pairs_def result_partial_compliance_def)
  have p: "''CIS Benchmark Level 1'' \<in> spec_prefixes (metrics result_partial_compliance)"
    by (simp add: spec_prefixes_def metric_tag_pairs_def result_partial_compliance_def
        tag_prefix_def)
  from compliance_entries [OF h, of "''CIS Benchmark Level 1''"
      "\<lparr>tag = ''CIS Benchmark Level 1'', compliant = 1, total = 2, percentage = 50\<rparr>"]
  have "map_of (compliance result_partial_compliance) ''CIS Benchmark Level 1'' =
     Some \<lparr>tag = ''CIS Benchmark Level 1'', compliant = 1, total = 2, percentage = 50\<rparr>"
    unfolding c t using p by simp
  with h c t p show ?thesis by blast
qed

text \<open>
  Claim C7. In a result of \<open>compute_score\<close>, \<open>active_threats + inactive_threats = total_metrics\<close>,
  where \<open>total_metrics\<close> is the length of the returned metric list and the two counts are
  the numbers of its active and of its inactive metrics.
\<close>

theorem threat_counts_sum:
  assumes "compute_score model io ai = Inr r"
  shows "active_threats r + inactive_threats r = total_metrics r \<and>
         total_metrics r = int (length (metrics r)) \<and>
         active_threats r = int (length (filter active (metrics r))) \<and>
         inactive_threats r = int (length (filter (\<lambda>m. \<not> active m) (metrics r)))"
proof -
  from compute_score_Inr [OF assms] obtain ms where
    r: "r = closed_result (get_name model) ms" by blast
  have "length (filter active ms) + length (filter (\<lambda>m. \<not> active m) ms) = length ms"
    by (rule sum_length_filter_compl)
  then have "int (length (filter active ms)) + int (length (filter (\<lambda>m. \<not> active m) ms))
               = int (length ms)"
    by (metis of_nat_add)
  then show ?thesis
    by (simp add: r closed_result_def)
qed

theorem threat_counts_sum_witness:
  "compute_score model_integer_division (Some {''t1''}) False = Inr result_integer_division \<and>
   active_threats result_integer_division = 1 \<and> inactive_threats result_integer_division = 1 \<and>
   active_threats result_integer_division + inactive_threats result_integer_division =
     total_metrics result_integer_division \<and>
   total_metrics result_integer_division = int (length (metrics result_integer_division))"
proof -
  have h: "compute_score model_integer_division (Some {''t1''}) False = Inr result_integer_division"
    by code_simp
  have "active_threats result_integer_division = 1" "inactive_threats result_integer_division = 1"
    by (simp_all add: result_integer_division_def)
  with threat_counts_sum [OF h] h show ?thesis by simp
qed

text \<open>
  Claim C8. Two inactive-name sets that agree on every metric name of the document give the
  same outcome of \<open>compute_score\<close>: names that match no metric are inert.
\<close>

theorem unmatched_names_inert:
  assumes "\<forall>n \<in> metric_names model. (n \<in> inactive_or_empty A) = (n \<in> inactive_or_empty B)"
  shows "compute_score model A ai = compute_score model B ai"
proof -
  have "build_metrics (get_metrics model) (inactive_or_empty A) ai [] =
        build_metrics (get_metrics model) (inactive_or_empty B) ai []"
  proof (rule build_metrics_cong)
    fix m assume "m \<in> set (get_metrics model)"
    then show "metric_result m (inactive_or_empty A) ai = metric_result m (inactive_or_empty B) ai"
      using assms by (intro metric_result_names_agree) (blast dest: raw_name_in_metric_names)
  qed
  then show ?thesis
    by (simp add: compute_score_def)
qed

theorem unmatched_names_inert_witness:
  "metric_names model_integer_division = {''t1'', ''t2''} \<and>
   inactive_or_empty (Some {''t1'', ''no such metric''}) = {''t1'', ''no such metric''} \<and>
   inactive_or_empty (Some {''t1''}) = {''t1''} \<and>
   compute_score model_integer_division (Some {''t1'', ''no such metric''}) False =
     compute_score model_integer_division (Some {''t1''}) False \<and>
   compute_score model_integer_division (Some {''t1''}) False = Inr result_integer_division"
proof -
  have n: "metric_names model_integer_division = {''t1'', ''t2''}"
    by (simp add: metric_names_def model_integer_division_def make_threat_model_def
        make_metric_def get_metrics_def)
  have i: "inactive_or_empty (Some {''t1'', ''no such metric''}) = {''t1'', ''no such metric''}"
    "inactive_or_empty (Some {''t1''}) = {''t1''}"
    by (simp_all add: inactive_or_empty_def)
  have h: "\<forall>n \<in> metric_names model_integer_division.
      (n \<in> inactive_or_empty (Some {''t1'', ''no such metric''})) =
      (n \<in> inactive_or_empty (Some {''t1''}))"
    unfolding n i by simp
  have e: "compute_score model_integer_division (Some {''t1''}) False = Inr result_integer_division"
    by code_simp
  from unmatched_names_inert [OF h, of False] n i e show ?thesis by blast
qed

text \<open>
  Claim C9. \<open>compute_score\<close> never mutates its input: whatever the outcome, every object of the
  heap the call received (the document, its metric list, each metric record, each tags list,
  the inactive set) is unchanged in the heap it leaves, and a returned \<open>ScoreResult\<close> is a
  newly allocated object, as are its \<open>dimensions\<close>, \<open>compliance\<close> and \<open>metrics\<close> containers.
  In the witness the first \<open>MetricResult\<close> refers to the tags list at address \<open>0\<close>: the list
  is shared with the document, not copied. The store engine is the engine of the other
  claims: on a heap that holds the document it returns what \<open>compute_score\<close> returns
  (\<open>compute_score_st_refines\<close>).
\<close>

theorem compute_score_st_frame:
  assumes "compute_score_st ta io ai h = (out, h')"
  shows "length h \<le> length h' \<and> take (length h) h' = h \<and>
         (\<forall>a < length h. h' ! a = h ! a) \<and>
         (\<forall>a. out = Returned a \<longrightarrow> result_fresh h a h')"
proof -
  have p: "post h (result_fresh h) (compute_score_st ta io ai h)"
    by (rule post_compute_score_st_from [OF frame_refl])
  then have f: "frame h h'" and r: "\<forall>a. out = Returned a \<longrightarrow> result_fresh h a h'"
    using assms by (simp_all add: post_def)
  have "\<forall>a < length h. h' ! a = h ! a"
    using f by (metis frame_def nth_take)
  with f r show ?thesis
    by (simp add: frame_def)
qed

theorem compute_score_st_frame_witness:
  "compute_score_st 4 (Some 5) False heap_integer_division =
     (Returned 21, heap_after_integer_division) \<and>
   length heap_integer_division = 6 \<and>
   take 6 heap_after_integer_division = heap_integer_division \<and>
   result_fresh heap_integer_division 21 heap_after_integer_division \<and>
   heap_after_integer_division ! 21 = ScoreResultObj ''test model'' 11 42 (21 / 10) 18 6 2 1 1 \<and>
   heap_after_integer_division ! 7 = MetricResultObj ''t1'' ''network'' 3 0 False"
proof -
  have run: "compute_score_st 4 (Some 5) False heap_integer_division =
     (Returned 21, heap_after_integer_division)"
    by code_simp
  have len: "length heap_integer_division = 6"
    by (simp add: heap_integer_division_def)
  have a: "heap_after_integer_division ! 21 =
      ScoreResultObj ''test model'' 11 42 (21 / 10) 18 6 2 1 1"
    by (simp add: heap_after_integer_division_def heap_integer_division_def)
  have b: "heap_after_integer_division ! 7 = MetricResultObj ''t1'' ''network'' 3 0 False"
    by (simp add: heap_after_integer_division_def heap_integer_division_def)
  from compute_score_st_frame [OF run] len
  have "take 6 heap_after_integer_division = heap_integer_division \<and>
        result_fresh heap_integer_division 21 heap_after_integer_division"
    by simp
  with run len a b show ?thesis by blast
qed

text \<open>
  Claim C10. A document without the \<open>metrics\<close> key is scored as one with an empty metric
  list; without the \<open>name\<close> key the platform of the result is \<open>"unknown"\<close>; a metric record
  without the \<open>tags\<close> key gets the empty tag list. None of these omissions is an error: the
  engine returns a result whenever every record carries \<open>name\<close>, \<open>dimension\<close> and
  \<open>severity\<close> and a known dimension. A record that lacks \<open>name\<close>, \<open>dimension\<close> or
  \<open>severity\<close> raises \<open>KeyError\<close> for the first key missing from the first such record.
\<close>

theorem omitted_keys:
  "(tm_metrics model = None \<longrightarrow>
      (\<exists>r. compute_score model io ai = Inr r \<and> metrics r = []) \<and>
      compute_score model io ai = compute_score (model\<lparr>tm_metrics := Some []\<rparr>) io ai) \<and>
   (tm_name model = None \<and> compute_score model io ai = Inr r \<longrightarrow> platform r = ''unknown'') \<and>
   (compute_score model io ai = Inr r \<longrightarrow>
      map tags (metrics r) = map tags_or_empty (get_metrics model)) \<and>
   (raw_tags m = None \<longrightarrow> tags_or_empty m = []) \<and>
   ((\<forall>m' \<in> set (get_metrics model). has_required_keys m' \<and> \<not> unknown_dimension m') \<longrightarrow>
      (\<exists>r'. compute_score model io ai = Inr r')) \<and>
   ((\<exists>m' \<in> set (get_metrics model). \<not> has_required_keys m') \<longrightarrow>
      (\<exists>m0. List.find (\<lambda>m'. \<not> has_required_keys m') (get_metrics model) = Some m0 \<and>
         missing_key m0 \<in> {''name'', ''dimension'', ''severity''} \<and>
         compute_score model io ai = Inl (KeyError (missing_key m0))))"
proof -
  have 1: "(\<exists>r. compute_score model io ai = Inr r \<and> metrics r = []) \<and>
      compute_score model io ai = compute_score (model\<lparr>tm_metrics := Some []\<rparr>) io ai"
    if "tm_metrics model = None"
  proof -
    have g: "get_metrics model = []"
      using that by (simp add: get_metrics_def)
    have b: "build_metrics (get_metrics model) (inactive_or_empty io) ai [] = Inr []"
      by (simp add: g)
    have "compute_score model io ai = Inr (closed_result (get_name model) [])"
      by (rule compute_score_known [OF b]) simp
    moreover have "metrics (closed_result (get_name model) []) = []"
      by (simp add: closed_result_def)
    moreover have "compute_score model io ai =
        compute_score (model\<lparr>tm_metrics := Some []\<rparr>) io ai"
      using that by (simp add: compute_score_def get_metrics_def get_name_def)
    ultimately show ?thesis by blast
  qed
  have 2: "platform r = ''unknown''"
    if "tm_name model = None \<and> compute_score model io ai = Inr r"
  proof -
    from that compute_score_Inr [of model io ai r] obtain ms where
      "r = closed_result (get_name model) ms" by blast
    then show ?thesis
      using that by (simp add: closed_result_def get_name_def)
  qed
  have 3: "map tags (metrics r) = map tags_or_empty (get_metrics model)"
    if "compute_score model io ai = Inr r"
    using that by (rule compute_score_tags)
  have 4: "raw_tags m = None \<longrightarrow> tags_or_empty m = []"
    by (simp add: tags_or_empty_def)
  have 5: "\<exists>r'. compute_score model io ai = Inr r'"
    if "\<forall>m' \<in> set (get_metrics model). has_required_keys m' \<and> \<not> unknown_dimension m'"
    using that by (rule compute_score_total)
  have 6: "\<exists>m0. List.find (\<lambda>m'. \<not> has_required_keys m') (get_metrics model) = Some m0 \<and>
         missing_key m0 \<in> {''name'', ''dimension'', ''severity''} \<and>
         compute_score model io ai = Inl (KeyError (missing_key m0))"
    if "\<exists>m' \<in> set (get_metrics model). \<not> has_required_keys m'"
  proof -
    from that obtain m' where "m' \<in> set (get_metrics model)" "\<not> has_required_keys m'" by blast
    from find_exists [of m' "get_metrics model" "\<lambda>m. \<not> has_required_keys m", OF this]
    obtain m0 where f: "List.find (\<lambda>m. \<not> has_required_keys m) (get_metrics model) = Some m0" ..
    have "missing_key m0 \<in> {''name'', ''dimension'', ''severity''}"
      by (simp add: missing_key_def)
    with f compute_score_missing_key [OF f] show ?thesis by blast
  qed
  from 1 2 3 4 5 6 show ?thesis by blast
qed

theorem omitted_keys_witness:
  "tm_metrics model_no_keys = None \<and>
   compute_score model_no_keys None False = Inr (result_empty\<lparr>platform := ''unknown''\<rparr>) \<and>
   tm_name model_no_tags = None \<and> raw_tags metric_no_tags = None \<and>
   has_required_keys metric_no_tags \<and> \<not> unknown_dimension metric_no_tags \<and>
   compute_score model_no_tags None False = Inr result_no_tags \<and>
   platform result_no_tags = ''unknown'' \<and>
   map tags (metrics result_no_tags) = [Nil] \<and>
   \<not> has_required_keys metric_no_severity \<and>
   List.find (\<lambda>m'. \<not> has_required_keys m') (get_metrics model_no_severity)
     = Some metric_no_severity \<and>
   compute_score model_no_severity None False = Inl (KeyError ''severity'')"
proof -
  have a: "tm_metrics model_no_keys = None"
    by (simp add: model_no_keys_def)
  have b: "compute_score model_no_keys None False = Inr (result_empty\<lparr>platform := ''unknown''\<rparr>)"
    by code_simp
  have c: "tm_name model_no_tags = None" "raw_tags metric_no_tags = None"
    by (simp_all add: model_no_tags_def metric_no_tags_def)
  have d: "has_required_keys metric_no_tags" "\<not> unknown_dimension metric_no_tags"
    by (simp_all add: has_required_keys_def unknown_dimension_def metric_no_tags_def
        DIMENSIONS_def)
  have g: "get_metrics model_no_tags = [metric_no_tags]"
    by (simp add: model_no_tags_def get_metrics_def)
  have e: "compute_score model_no_tags None False = Inr result_no_tags"
    by code_simp
  have t: "tags_or_empty metric_no_tags = []"
    using omitted_keys [of model_no_tags None False result_no_tags metric_no_tags] c by blast
  have p: "platform result_no_tags = ''unknown''"
    using omitted_keys [of model_no_tags None False result_no_tags metric_no_tags] c e by blast
  have m: "map tags (metrics result_no_tags) = [Nil]"
    using omitted_keys [of model_no_tags None False result_no_tags metric_no_tags] e g t
    by simp
  have s: "\<not> has_required_keys metric_no_severity"
    by (simp add: has_required_keys_def metric_no_severity_def)
  have gs: "get_metrics model_no_severity = [metric_no_tags, metric_no_severity]"
    by (simp add: model_no_severity_def make_threat_model_def get_metrics_def)
  have f: "List.find (\<lambda>m'. \<not> has_required_keys m') (get_metrics model_no_severity)
     = Some metric_no_severity"
    using d s by (simp add: gs)
  have "\<exists>m' \<in> set (get_metrics model_no_severity). \<not> has_required_keys m'"
    using s by (simp add: gs)
  with omitted_keys [of model_no_severity None False result_no_tags metric_no_tags] f
  have "compute_score model_no_severity None False
          = Inl (KeyError (missing_key metric_no_severity))"
    by auto
  then have k: "compute_score model_no_severity None False = Inl (KeyError ''severity'')"
    by (simp add: missing_key_def metric_no_severity_def)
  from a b c d e p m s f k show ?thesis by blast
qed

end
